theory Spec2Isabelle
  imports Main
begin

section \<open>Python values and exceptions\<close>

text \<open>
  Python's \<open>str\<close> is modelled as \<open>string\<close>: one \<open>char\<close> per code point, for code
  points below 256. Python's unbounded \<open>int\<close> is \<open>int\<close>. An exception is a value of
  type \<open>error\<close>; a function that can raise returns \<open>error + 'a\<close>, with \<open>Inl\<close> the
  exception that leaves the function.
\<close>

datatype error =
    ValueError string
  | JSONDecodeError
  | KeyError string
  | TypeError
  | AttributeError
  | YoutubeCaptionFinderError string
  | Exception string

text \<open>
  What \<open>str.isspace\<close>, \<open>str.strip\<close>, \<open>str.split\<close> and the pattern \<open>\s\<close> of \<open>re\<close> count
  as whitespace, among the code points below 256.
\<close>

definition is_space :: "char \<Rightarrow> bool" where
  "is_space c = (let n = (of_char c :: nat) in
     (9 \<le> n \<and> n \<le> 13) \<or> (28 \<le> n \<and> n \<le> 32) \<or> n = 133 \<or> n = 160)"

text \<open>\<open>str.isalpha\<close> on one character, among the code points below 256.\<close>

definition is_alpha :: "char \<Rightarrow> bool" where
  "is_alpha c = (let n = (of_char c :: nat) in
     (65 \<le> n \<and> n \<le> 90) \<or> (97 \<le> n \<and> n \<le> 122) \<or> n = 170 \<or> n = 181 \<or> n = 186 \<or>
     (192 \<le> n \<and> n \<le> 214) \<or> (216 \<le> n \<and> n \<le> 246) \<or> (248 \<le> n \<and> n \<le> 255))"

text \<open>\<open>s.startswith(p)\<close>, and the rest of \<open>s\<close> after the prefix \<open>p\<close>.\<close>

fun strip_prefix :: "string \<Rightarrow> string \<Rightarrow> string option" where
  "strip_prefix [] s = Some s"
| "strip_prefix (p # ps) [] = None"
| "strip_prefix (p # ps) (c # cs) = (if p = c then strip_prefix ps cs else None)"

definition startswith :: "string \<Rightarrow> string \<Rightarrow> bool" where
  "startswith s p = (strip_prefix p s \<noteq> None)"

text \<open>\<open>p in s\<close> for two strings.\<close>

fun str_in :: "string \<Rightarrow> string \<Rightarrow> bool" where
  "str_in p [] = (p = [])"
| "str_in p (c # cs) = (startswith (c # cs) p \<or> str_in p cs)"

text \<open>\<open>s.strip()\<close>, \<open>s.split()\<close> and \<open>sep.join(xs)\<close>.\<close>

definition py_strip :: "string \<Rightarrow> string" where
  "py_strip s = rev (dropWhile is_space (rev (dropWhile is_space s)))"

fun split_from :: "string \<Rightarrow> string \<Rightarrow> string list" where
  "split_from [] cur = (if cur = [] then [] else [cur])"
| "split_from (c # cs) cur =
     (if is_space c then (if cur = [] then split_from cs [] else cur # split_from cs [])
      else split_from cs (cur @ [c]))"

definition py_split :: "string \<Rightarrow> string list" where
  "py_split s = split_from s []"

fun py_join :: "string \<Rightarrow> string list \<Rightarrow> string" where
  "py_join sep [] = []"
| "py_join sep [x] = x"
| "py_join sep (x # y # ys) = x @ sep @ py_join sep (y # ys)"

section \<open>video.py: the VideoInfo dataclass\<close>

text \<open>Every field is an \<open>Optional[str]\<close>; \<open>None\<close> is the unknown value.\<close>

record VideoInfo =
  vcard_id :: "string option"
  idx :: "string option"
  video_id :: "string option"
  thumbnail_url :: "string option"
  video_link :: "string option"
  title :: "string option"
  channel :: "string option"
  views :: "string option"
  likes :: "string option"
  upload_date :: "string option"
  language :: "string option"
  scroll_text :: "string option"

section \<open>sorting.py and filters.py\<close>

datatype LicenseType = ANY | CREATIVE_COMMONS | YOUTUBE_LICENSE

datatype SortField = UPLOAD_DATE | ID | VIEW_COUNT | LIKE_COUNT | CHAN_RANK | DURATION

datatype SortOrder = DESC | ASC

datatype date = Date (year: int) (month: int) (day: int)

definition MIN_VIEWS :: int where "MIN_VIEWS = 0"
definition MAX_VIEWS :: int where "MAX_VIEWS = 6000000000"
definition MIN_LIKES :: int where "MIN_LIKES = 30"
definition MAX_LIKES :: int where "MAX_LIKES = 6000000000"
definition MIN_DURATION :: int where "MIN_DURATION = 1"
definition MAX_DURATION :: int where "MAX_DURATION = 86400"

record Filters =
  title :: "string option"
  views :: "(int \<times> int) option"
  likes :: "(int \<times> int) option"
  duration :: "(int \<times> int) option"
  date_range :: "(date option \<times> date option) option"
  license :: "LicenseType option"

text \<open>
  A setter mutates the object or raises. The model returns the outcome of the call
  together with the object as it is afterwards, so that what a failed call leaves
  behind can be stated.
\<close>

definition set_views :: "Filters \<Rightarrow> int \<Rightarrow> int \<Rightarrow> (error + unit) \<times> Filters" where
  "set_views self min_views max_views =
     (if min_views < MIN_VIEWS then (Inl (ValueError ''min_views must be >= 0''), self)
      else if max_views > MAX_VIEWS then (Inl (ValueError ''max_views must be <= 6000000000''), self)
      else if min_views > max_views
        then (Inl (ValueError ''min_views cannot be greater than max_views''), self)
      else (Inr (), self\<lparr>views := Some (min_views, max_views)\<rparr>))"

definition set_likes :: "Filters \<Rightarrow> int \<Rightarrow> int \<Rightarrow> (error + unit) \<times> Filters" where
  "set_likes self min_likes max_likes =
     (if min_likes < MIN_LIKES then (Inl (ValueError ''min_likes must be >= 30''), self)
      else if max_likes > MAX_LIKES then (Inl (ValueError ''max_likes must be <= 6000000000''), self)
      else if min_likes > max_likes
        then (Inl (ValueError ''min_likes cannot be greater than max_likes''), self)
      else (Inr (), self\<lparr>likes := Some (min_likes, max_likes)\<rparr>))"

definition set_duration :: "Filters \<Rightarrow> int \<Rightarrow> int \<Rightarrow> (error + unit) \<times> Filters" where
  "set_duration self start_duration end_duration =
     (if start_duration < MIN_DURATION
        then (Inl (ValueError ''start_duration must be >= 1''), self)
      else if end_duration > MAX_DURATION
        then (Inl (ValueError ''end_duration must be <= 86400''), self)
      else if start_duration > end_duration
        then (Inl (ValueError ''start_duration cannot be greater than end_duration''), self)
      else (Inr (), self\<lparr>duration := Some (start_duration, end_duration)\<rparr>))"

definition is_ValueError :: "error + 'a \<Rightarrow> bool" where
  "is_ValueError r = (case r of Inl (ValueError _) \<Rightarrow> True | _ \<Rightarrow> False)"

section \<open>channel.py: the ytInitialData object of a channel page\<close>

subsection \<open>JSON values and subscripting\<close>

text \<open>
  What \<open>json.loads\<close> returns: \<open>None\<close>, a bool, an int, a float, a str, a list or a dict
  with str keys. \<open>JNull\<close> is Python's \<open>None\<close>. A float is given by two integers, \<open>JFloat m e\<close>
  for \<open>m * 2 ^ e\<close>. A dict is the list of its items; a key is looked up with \<open>map_of\<close>.
\<close>

datatype json =
    JNull
  | JBool bool
  | JInt int
  | JFloat int int
  | JStr string
  | JArr "json list"
  | JObj "(string \<times> json) list"

text \<open>
  \<open>v[k]\<close> for a str key \<open>k\<close>: a dict gives the value or raises KeyError; a list, a
  str, a number, a bool and \<open>None\<close> raise TypeError.
\<close>

definition getitem :: "json \<Rightarrow> string \<Rightarrow> error + json" where
  "getitem v k =
     (case v of
        JObj items \<Rightarrow> (case map_of items k of Some x \<Rightarrow> Inr x | None \<Rightarrow> Inl (KeyError k))
      | _ \<Rightarrow> Inl TypeError)"

subsection \<open>The search for the pattern\<close>

text \<open>
  \<open>re.search\<close> with the pattern
  \<^verbatim>\<open>(?:window\[\s*['"]ytInitialData['"]\s*\]|ytInitialData)\s*=\s*({)\<close>:
  the pattern is tried at every position of the document, from the left, and group 1
  is the opening brace. \<open>match_here s\<close> tries the pattern at the start of \<open>s\<close> and
  returns what is left of \<open>s\<close> from the brace on.
\<close>

definition is_quote :: "char \<Rightarrow> bool" where
  "is_quote c = (c = CHR 0x22 \<or> c = CHR 0x27)"

definition match_tail :: "string \<Rightarrow> string option" where
  "match_tail s =
     (case dropWhile is_space s of
        c # r \<Rightarrow>
          if c = CHR ''='' then
            (case dropWhile is_space r of
               b # r' \<Rightarrow> if b = CHR ''{'' then Some (b # r') else None
             | [] \<Rightarrow> None)
          else None
      | [] \<Rightarrow> None)"

definition match_window :: "string \<Rightarrow> string option" where
  "match_window s =
     (case strip_prefix ''window['' s of
        None \<Rightarrow> None
      | Some r1 \<Rightarrow>
          (case dropWhile is_space r1 of
             [] \<Rightarrow> None
           | q1 # r2 \<Rightarrow>
               if \<not> is_quote q1 then None
               else
                 (case strip_prefix ''ytInitialData'' r2 of
                    None \<Rightarrow> None
                  | Some r3 \<Rightarrow>
                      (case r3 of
                         [] \<Rightarrow> None
                       | q2 # r4 \<Rightarrow>
                           if \<not> is_quote q2 then None
                           else
                             (case dropWhile is_space r4 of
                                [] \<Rightarrow> None
                              | b # r5 \<Rightarrow> if b = CHR '']'' then match_tail r5 else None)))))"

definition match_plain :: "string \<Rightarrow> string option" where
  "match_plain s =
     (case strip_prefix ''ytInitialData'' s of None \<Rightarrow> None | Some r \<Rightarrow> match_tail r)"

definition match_here :: "string \<Rightarrow> string option" where
  "match_here s = (case match_window s of Some r \<Rightarrow> Some r | None \<Rightarrow> match_plain s)"

text \<open>
  \<open>re_search_from s i\<close> searches \<open>s\<close>, which starts at index \<open>i\<close> of the document, and
  returns \<open>match.start(1)\<close>, the index of the brace.
\<close>

fun re_search_from :: "string \<Rightarrow> nat \<Rightarrow> nat option" where
  "re_search_from [] i = None"
| "re_search_from (c # cs) i =
     (case match_here (c # cs) of
        Some r \<Rightarrow> Some (i + (length (c # cs) - length r))
      | None \<Rightarrow> re_search_from cs (i + 1))"

definition re_search :: "string \<Rightarrow> nat option" where
  "re_search html = re_search_from html 0"

subsection \<open>The brace-balancing scan\<close>

text \<open>
  The loop of \<open>extract_yt_initial_data\<close> over \<open>enumerate(html[start_index:],
  start=start_index)\<close>. Its variables are the arguments: the index \<open>i\<close> of the
  character read, \<open>brace_count\<close>, \<open>in_string\<close>, \<open>string_char\<close> (a str, empty at first) and
  \<open>escape\<close>. The result is \<open>Some (i + 1)\<close> when the loop leaves by \<open>break\<close>, and \<open>None\<close>
  when it reads the document to its end.
\<close>

fun scan :: "string \<Rightarrow> nat \<Rightarrow> int \<Rightarrow> bool \<Rightarrow> string \<Rightarrow> bool \<Rightarrow> nat option" where
  "scan [] i brace_count in_string string_char escape = None"
| "scan (ch # rest) i brace_count in_string string_char escape =
     (if in_string then
        (if escape then scan rest (i + 1) brace_count in_string string_char False
         else if ch = CHR 0x5C then scan rest (i + 1) brace_count in_string string_char True
         else if [ch] = string_char then scan rest (i + 1) brace_count False string_char escape
         else scan rest (i + 1) brace_count in_string string_char escape)
      else
        (if ch = CHR 0x22 \<or> ch = CHR 0x27 then scan rest (i + 1) brace_count True [ch] escape
         else if ch = CHR ''{'' then scan rest (i + 1) (brace_count + 1) in_string string_char escape
         else if ch = CHR ''}'' then
           (if brace_count - 1 = 0 then Some (i + 1)
            else scan rest (i + 1) (brace_count - 1) in_string string_char escape)
         else scan rest (i + 1) brace_count in_string string_char escape))"

text \<open>The slice \<open>s[a:b]\<close> for \<open>0 \<le> a\<close> and \<open>0 \<le> b\<close>.\<close>

definition slice :: "string \<Rightarrow> nat \<Rightarrow> nat \<Rightarrow> string" where
  "slice s a b = take (b - a) (drop a s)"

text \<open>
  \<open>extract_yt_initial_data\<close>. The argument \<open>loads\<close> is \<open>json.loads\<close>: the decoded value,
  or the exception it raises.
\<close>

definition extract_yt_initial_data :: "(string \<Rightarrow> error + json) \<Rightarrow> string \<Rightarrow> error + json" where
  "extract_yt_initial_data loads html =
     (case re_search html of
        None \<Rightarrow> Inl (ValueError ''ytInitialData not found in HTML'')
      | Some start_index \<Rightarrow>
          (let end_index =
                 (case scan (drop start_index html) start_index 0 False [] False of
                    Some e \<Rightarrow> e
                  | None \<Rightarrow> start_index);
               json_text = slice html start_index end_index
           in loads json_text))"

subsection \<open>The channel identifier\<close>

definition get_channel_id_from_html :: "(string \<Rightarrow> error + json) \<Rightarrow> string \<Rightarrow> error + json" where
  "get_channel_id_from_html loads html =
     (case extract_yt_initial_data loads html of
        Inl e \<Rightarrow> Inl e
      | Inr data \<Rightarrow>
          (let r = (case getitem data ''metadata'' of
                      Inl e \<Rightarrow> Inl e
                    | Inr m \<Rightarrow>
                        (case getitem m ''channelMetadataRenderer'' of
                           Inl e \<Rightarrow> Inl e
                         | Inr c \<Rightarrow> getitem c ''externalId''))
           in case r of
                Inl (KeyError k) \<Rightarrow> Inl (ValueError ''Channel ID not found in initial data.'')
              | _ \<Rightarrow> r))"

text \<open>
  The decimal digits of a natural number and \<open>str(n)\<close> of an int.
\<close>

fun digits_of :: "nat \<Rightarrow> nat \<Rightarrow> string" where
  "digits_of 0 n = []"
| "digits_of (Suc fuel) n =
     (if n < 10 then [char_of (48 + n)]
      else digits_of fuel (n div 10) @ [char_of (48 + n mod 10)])"

definition str_nat :: "nat \<Rightarrow> string" where
  "str_nat n = digits_of (Suc n) n"

definition str_int :: "int \<Rightarrow> string" where
  "str_int n = (if n < 0 then CHR ''-'' # str_nat (nat (- n)) else str_nat (nat n))"

text \<open>
  The network. \<open>requests.get(url)\<close> returns a response or raises; what it returns may
  change from one request to the next, so the network is a function of the number of
  requests made before and of the URL. The requests made so far are kept as a list of
  URLs, the oldest first.
\<close>

record response =
  status_code :: int
  response_text :: string

type_synonym network = "nat \<Rightarrow> string \<Rightarrow> error + response"

definition requests_get ::
  "network \<Rightarrow> string \<Rightarrow> string list \<Rightarrow> (error + response) \<times> string list" where
  "requests_get net url requests = (net (length requests) url, requests @ [url])"

definition get_channel_id ::
  "network \<Rightarrow> (string \<Rightarrow> error + json) \<Rightarrow> string \<Rightarrow> string list \<Rightarrow>
     (error + json) \<times> string list" where
  "get_channel_id net loads channel_url requests =
     (case requests_get net channel_url requests of
        (Inl e, requests') \<Rightarrow> (Inl e, requests')
      | (Inr response, requests') \<Rightarrow>
          if status_code response \<noteq> 200
          then (Inl (Exception (''Failed to fetch channel page, status code '' @
                  str_int (status_code response))), requests')
          else (get_channel_id_from_html loads (response_text response), requests'))"

text \<open>
  The class \<open>Channel\<close>. The attribute \<open>_channel_id\<close> is \<open>private_channel_id\<close>; it is
  \<open>None\<close> (\<open>JNull\<close>) after \<open>__init__\<close>. The property \<open>channel_id\<close> takes the object and the
  requests made so far, and returns its outcome, the object and the requests afterwards.
\<close>

record Channel =
  channel_url :: string
  private_channel_id :: json

definition Channel_init :: "string \<Rightarrow> Channel" where
  "Channel_init url = \<lparr>channel_url = url, private_channel_id = JNull\<rparr>"

definition channel_id ::
  "network \<Rightarrow> (string \<Rightarrow> error + json) \<Rightarrow> Channel \<Rightarrow> string list \<Rightarrow>
     (error + json) \<times> Channel \<times> string list" where
  "channel_id net loads self requests =
     (if private_channel_id self = JNull then
        (case get_channel_id net loads (channel_url self) requests of
           (Inl e, requests') \<Rightarrow> (Inl e, self, requests')
         | (Inr v, requests') \<Rightarrow> (Inr v, self\<lparr>private_channel_id := v\<rparr>, requests'))
      else (Inr (private_channel_id self), self, requests))"

subsection \<open>Occurrences of the pattern in a document\<close>

text \<open>
  The texts the pattern matches up to the brace: \<^verbatim>\<open>window[ 'ytInitialData' ] = \<close> with
  either quote on each side, or \<^verbatim>\<open>ytInitialData = \<close>, with any whitespace where the
  pattern has \<open>\s*\<close>. \<open>pattern_at html p q\<close> says that such a text begins at index \<open>p\<close> of
  the document and is followed by an opening brace, at index \<open>q\<close>; the pattern occurs in
  a document when it does so at some index. These are notions of the text alone: the
  pattern has no word boundary and knows nothing of comments and strings, so it occurs
  in \<^verbatim>\<open>xytInitialData = {\<close> and in \<^verbatim>\<open>/* ytInitialData = { */\<close> as well.
\<close>

definition spaces :: "string \<Rightarrow> bool" where
  "spaces w = list_all is_space w"

definition lhs_plain :: "string \<Rightarrow> bool" where
  "lhs_plain a = (\<exists>w1 w2. spaces w1 \<and> spaces w2 \<and> a = ''ytInitialData'' @ w1 @ ''='' @ w2)"

definition lhs_window :: "string \<Rightarrow> bool" where
  "lhs_window a =
     (\<exists>w1 q1 q2 w2 w3 w4. spaces w1 \<and> is_quote q1 \<and> is_quote q2 \<and> spaces w2 \<and> spaces w3 \<and> spaces w4 \<and>
        a = ''window['' @ w1 @ [q1] @ ''ytInitialData'' @ [q2] @ w2 @ '']'' @ w3 @ ''='' @ w4)"

definition pattern_lhs :: "string \<Rightarrow> bool" where
  "pattern_lhs a = (lhs_window a \<or> lhs_plain a)"

definition pattern_at :: "string \<Rightarrow> nat \<Rightarrow> nat \<Rightarrow> bool" where
  "pattern_at html p q =
     (\<exists>a post. pattern_lhs a \<and> p \<le> length html \<and> drop p html = a @ CHR ''{'' # post \<and>
        q = p + length a)"

definition pattern_occurs :: "string \<Rightarrow> bool" where
  "pattern_occurs html = (\<exists>p q. pattern_at html p q)"

subsection \<open>JSON texts\<close>

text \<open>
  The grammar of JSON (RFC 8259) as predicates on texts. \<open>json_chars s\<close>: \<open>s\<close> is the
  inside of a string, made of unescaped characters (any character from U+0020 on but
  the double quote and the backslash) and of escapes (a backslash and one of
  \<^verbatim>\<open>" \ / b f n r t\<close>, or a backslash, \<open>u\<close> and four hexadecimal digits).
\<close>

definition json_ws :: "string \<Rightarrow> bool" where
  "json_ws w = list_all (\<lambda>c. c = CHR '' '' \<or> c = CHR 0x09 \<or> c = CHR 0x0A \<or> c = CHR 0x0D) w"

definition is_digit :: "char \<Rightarrow> bool" where
  "is_digit c = (c \<in> set ''0123456789'')"

definition is_hex :: "char \<Rightarrow> bool" where
  "is_hex c = (c \<in> set ''0123456789abcdefABCDEF'')"

definition is_escape :: "char \<Rightarrow> bool" where
  "is_escape c = (c = CHR 0x22 \<or> c = CHR 0x5C \<or> c \<in> set ''/bfnrt'')"

inductive json_chars :: "string \<Rightarrow> bool" where
  chars_end: "json_chars []"
| chars_plain: "json_chars s \<Longrightarrow> c \<noteq> CHR 0x22 \<Longrightarrow> c \<noteq> CHR 0x5C \<Longrightarrow> 32 \<le> (of_char c :: nat) \<Longrightarrow>
     json_chars (c # s)"
| chars_escape: "json_chars s \<Longrightarrow> is_escape e \<Longrightarrow> json_chars (CHR 0x5C # e # s)"
| chars_unicode: "json_chars s \<Longrightarrow> is_hex h1 \<Longrightarrow> is_hex h2 \<Longrightarrow> is_hex h3 \<Longrightarrow> is_hex h4 \<Longrightarrow>
     json_chars (CHR 0x5C # CHR ''u'' # h1 # h2 # h3 # h4 # s)"

text \<open>
  A number: an optional minus sign, an integer part without a leading zero, an
  optional fraction and an optional exponent.
\<close>

definition digits :: "string \<Rightarrow> bool" where
  "digits ds = (ds \<noteq> [] \<and> list_all is_digit ds)"

definition json_int :: "string \<Rightarrow> bool" where
  "json_int i = (i = ''0'' \<or> (digits i \<and> hd i \<noteq> CHR ''0''))"

definition json_frac :: "string \<Rightarrow> bool" where
  "json_frac f = (f = [] \<or> (\<exists>ds. f = CHR ''.'' # ds \<and> digits ds))"

definition json_exp :: "string \<Rightarrow> bool" where
  "json_exp x =
     (x = [] \<or>
      (\<exists>c sg ds. x = c # sg @ ds \<and> (c = CHR ''e'' \<or> c = CHR ''E'') \<and>
         (sg = [] \<or> sg = ''+'' \<or> sg = ''-'') \<and> digits ds))"

definition json_number :: "string \<Rightarrow> bool" where
  "json_number n =
     (\<exists>sg i f x. n = sg @ i @ f @ x \<and> (sg = [] \<or> sg = ''-'') \<and> json_int i \<and> json_frac f \<and> json_exp x)"

text \<open>
  Values, the elements of an array and the members of an object. An element is a
  value between whitespace; a member is a string, a colon and an element.
\<close>

inductive json_value :: "string \<Rightarrow> bool"
  and json_element :: "string \<Rightarrow> bool"
  and json_elements :: "string \<Rightarrow> bool"
  and json_member :: "string \<Rightarrow> bool"
  and json_members :: "string \<Rightarrow> bool" where
  value_string: "json_chars s \<Longrightarrow> json_value (CHR 0x22 # s @ [CHR 0x22])"
| value_number: "json_number n \<Longrightarrow> json_value n"
| value_true: "json_value ''true''"
| value_false: "json_value ''false''"
| value_null: "json_value ''null''"
| value_empty_array: "json_ws w \<Longrightarrow> json_value (CHR ''['' # w @ '']'')"
| value_array: "json_elements es \<Longrightarrow> json_value (CHR ''['' # es @ '']'')"
| value_empty_object: "json_ws w \<Longrightarrow> json_value (CHR ''{'' # w @ ''}'')"
| value_object: "json_members ms \<Longrightarrow> json_value (CHR ''{'' # ms @ ''}'')"
| element: "json_ws w1 \<Longrightarrow> json_value v \<Longrightarrow> json_ws w2 \<Longrightarrow> json_element (w1 @ v @ w2)"
| elements_one: "json_element e \<Longrightarrow> json_elements e"
| elements_more: "json_element e \<Longrightarrow> json_elements es \<Longrightarrow> json_elements (e @ '','' @ es)"
| member: "json_ws w1 \<Longrightarrow> json_chars k \<Longrightarrow> json_ws w2 \<Longrightarrow> json_element e \<Longrightarrow>
     json_member (w1 @ CHR 0x22 # k @ CHR 0x22 # w2 @ '':'' @ e)"
| members_one: "json_member m \<Longrightarrow> json_members m"
| members_more: "json_member m \<Longrightarrow> json_members ms \<Longrightarrow> json_members (m @ '','' @ ms)"

text \<open>An object text: a value that is an object.\<close>

definition json_object :: "string \<Rightarrow> bool" where
  "json_object t = (\<exists>body. t = CHR ''{'' # body @ ''}'' \<and> (json_ws body \<or> json_members body))"

subsection \<open>Texts that leave the scan where it was\<close>

text \<open>
  A character is plain when the scan does nothing on it outside a string: it is no
  quote and no brace. A text is neutral when the scan, started on it outside a string
  at a positive depth, comes out of it outside a string at the same depth.
\<close>

definition plain :: "char \<Rightarrow> bool" where
  "plain c = (c \<noteq> CHR 0x22 \<and> c \<noteq> CHR 0x27 \<and> c \<noteq> CHR ''{'' \<and> c \<noteq> CHR ''}'')"

definition neutral :: "string \<Rightarrow> bool" where
  "neutral t = (\<forall>rest i d sc. 0 < d \<longrightarrow>
     scan (t @ rest) i d False sc False = scan rest (i + length t) d False sc False)"

subsection \<open>Assignments of the variable\<close>

text \<open>
  An occurrence of the pattern assigns the variable \<open>ytInitialData\<close> (or the property of
  \<open>window\<close>) only if the name it begins with is a whole name: it stands at the start of
  the document or after a character that cannot be part of an identifier. This is a
  necessary condition only (an occurrence inside a comment meets it), which is all that
  is needed to say of a document that it has no assignment of the variable.
\<close>

definition ident_char :: "char \<Rightarrow> bool" where
  "ident_char c = (let n = (of_char c :: nat) in
     (65 \<le> n \<and> n \<le> 90) \<or> (97 \<le> n \<and> n \<le> 122) \<or> (48 \<le> n \<and> n \<le> 57) \<or>
     c = CHR ''_'' \<or> c = CHR ''$'')"

definition assignment_at :: "string \<Rightarrow> nat \<Rightarrow> nat \<Rightarrow> bool" where
  "assignment_at html p q = (pattern_at html p q \<and> (p = 0 \<or> \<not> ident_char (html ! (p - 1))))"

definition has_assignment :: "string \<Rightarrow> bool" where
  "has_assignment html = (\<exists>p q. assignment_at html p q)"

subsection \<open>The brace depth of a text\<close>

text \<open>
  The brace depth of a text, as a notion of the text alone. A string literal begins at
  a single or double quote that stands outside a literal and ends at the next occurrence
  of the same quote that no backslash escapes; inside a literal a backslash escapes the
  character after it. \<open>outside m t\<close> is the list of the characters of \<open>t\<close> that stand
  outside the literals, the quotes that delimit them left out, when \<open>t\<close> begins in the
  lexical position \<open>m\<close>: outside a literal, inside one opened by the quote \<open>q\<close>, or inside
  one right after a backslash.
\<close>

datatype lexical = Code | Literal char | Escaped char

fun outside :: "lexical \<Rightarrow> string \<Rightarrow> string" where
  "outside m [] = []"
| "outside Code (c # cs) = (if is_quote c then outside (Literal c) cs else c # outside Code cs)"
| "outside (Literal q) (c # cs) =
     (if c = CHR 0x5C then outside (Escaped q) cs
      else if c = q then outside Code cs
      else outside (Literal q) cs)"
| "outside (Escaped q) (c # cs) = outside (Literal q) cs"

text \<open>
  \<open>balance m t\<close>: the opening braces less the closing braces among the characters of \<open>t\<close>
  outside the literals. \<open>depth t\<close> is the balance of a text that begins outside a
  literal. \<open>stays_open m d t\<close>: at depth \<open>d\<close> before \<open>t\<close>, the depth is 0 after no character
  of \<open>t\<close>; \<open>never_closed t\<close>: the depth is 0 after no character of \<open>t\<close>.
\<close>

definition balance :: "lexical \<Rightarrow> string \<Rightarrow> int" where
  "balance m t =
     int (count_list (outside m t) (CHR ''{'')) - int (count_list (outside m t) (CHR ''}''))"

definition depth :: "string \<Rightarrow> int" where
  "depth t = balance Code t"

definition stays_open :: "lexical \<Rightarrow> int \<Rightarrow> string \<Rightarrow> bool" where
  "stays_open m d t = (\<forall>k. 0 < k \<and> k \<le> length t \<longrightarrow> d + balance m (take k t) \<noteq> 0)"

definition never_closed :: "string \<Rightarrow> bool" where
  "never_closed t = (\<forall>k. 0 < k \<and> k \<le> length t \<longrightarrow> depth (take k t) \<noteq> 0)"

subsection \<open>Example channel pages\<close>

text \<open>
  Three channel pages. In the first the value of \<open>metadata\<close> is not an object, in the
  second the channel identifier is \<open>null\<close>, in the third it is a string. A fourth page
  assigns the object \<^verbatim>\<open>{"k": "a;}\"{'"}\<close>, whose string value holds a semicolon, both
  braces, an escaped double quote and a single quote. \<open>page_unclosed\<close> has an
  assignment whose object is never closed, in \<open>page_no_data\<close> the pattern does not occur.
  \<open>loads_pages\<close> is \<open>json.loads\<close> on the object texts of these pages and on the empty
  text; no other text is decoded in the examples.
\<close>

definition object_tricky :: string where
  \<open>object_tricky = ''{"k": "a;}'' @ [CHR 0x5C] @ ''"{'' @ [CHR 0x27] @ ''"}''\<close>

definition page_tricky :: string where
  \<open>page_tricky = ''<script>window["ytInitialData"] = '' @ object_tricky @ '';</script>''\<close>

definition page_unclosed :: string where
  \<open>page_unclosed = ''<script>var ytInitialData = {"a": {"b": 1};</script>''\<close>

definition page_no_data :: string where
  \<open>page_no_data = ''<html><body>no data here</body></html>''\<close>

definition page_metadata_null :: string where
  \<open>page_metadata_null = ''<script>var ytInitialData = {"metadata": null};</script>''\<close>

definition page_id_null :: string where
  \<open>page_id_null =
     ''<script>var ytInitialData = {"metadata": {"channelMetadataRenderer": {"externalId": null}}};</script>''\<close>

definition page_id_str :: string where
  \<open>page_id_str =
     ''<script>var ytInitialData = {"metadata": {"channelMetadataRenderer": {"externalId": "UC3k3"}}};</script>''\<close>

definition loads_pages :: "string \<Rightarrow> error + json" where
  \<open>loads_pages s =
     (if s = [] then Inl JSONDecodeError
      else if s = object_tricky then Inr (JObj [(''k'', JStr (''a;}"{'' @ [CHR 0x27]))])
      else if s = ''{"metadata": null}'' then Inr (JObj [(''metadata'', JNull)])
      else if s = ''{"metadata": {"channelMetadataRenderer": {"externalId": null}}}''
        then Inr (JObj [(''metadata'', JObj [(''channelMetadataRenderer'',
               JObj [(''externalId'', JNull)])])])
      else if s = ''{"metadata": {"channelMetadataRenderer": {"externalId": "UC3k3"}}}''
        then Inr (JObj [(''metadata'', JObj [(''channelMetadataRenderer'',
               JObj [(''externalId'', JStr ''UC3k3'')])])])
      else Inl JSONDecodeError)\<close>

text \<open>
  Four more pages. In \<open>page_other_variable\<close> the only occurrence of the pattern is the
  tail of the name \<open>xytInitialData\<close>. In \<open>page_comment_first\<close> the pattern occurs in a
  comment before the assignment, and in \<open>page_two_variables\<close> in the assignment of
  another variable before it. \<open>page_cut\<close> ends inside the object of its assignment.
  \<open>loads_objects\<close> is \<open>json.loads\<close> on the two object texts of these pages; it rejects
  every other text, the empty text among them.
\<close>

definition page_other_variable :: string where
  \<open>page_other_variable = ''<script>var xytInitialData = {"a": 1};</script>''\<close>

definition page_comment_first :: string where
  \<open>page_comment_first = ''<script>/* ytInitialData = { */ var ytInitialData = {"b": 2};</script>''\<close>

definition page_two_variables :: string where
  \<open>page_two_variables =
     ''<script>var xytInitialData = {"a": 1}; var ytInitialData = {"b": 2};</script>''\<close>

definition page_cut :: string where
  \<open>page_cut = ''<script>var ytInitialData = {"b": ''\<close>

definition loads_objects :: "string \<Rightarrow> error + json" where
  \<open>loads_objects s =
     (if s = ''{"a": 1}'' then Inr (JObj [(''a'', JInt 1)])
      else if s = ''{"b": 2}'' then Inr (JObj [(''b'', JInt 2)])
      else Inl JSONDecodeError)\<close>

text \<open>A network that answers every request with status 200 and the given page.\<close>

definition serve :: "string \<Rightarrow> network" where
  "serve page n url = Inr \<lparr>status_code = 200, response_text = page\<rparr>"

section \<open>extractor.py: the result cards of a page\<close>

subsection \<open>The parsed document\<close>

text \<open>
  What \<open>BeautifulSoup(html, "html.parser")\<close> builds: a tree of tags and strings. A tag
  has a name, its attributes and its children in document order; the document itself is
  the root tag. An attribute value is the text of the attribute; for \<open>class\<close> the
  library splits the text at whitespace and matches a class name against the parts.
  \<open>NavigableString s\<close> is a string of the kinds that \<open>get_text\<close> returns for a tag of the
  main content: a text node or a CDATA section. The other strings are left out of the
  tree: comments, declarations, doctypes and processing instructions, and the strings
  inside \<open>script\<close>, \<open>style\<close>, \<open>template\<close>, \<open>rt\<close> and \<open>rp\<close> elements, which the parser
  builds as objects of classes of their own (Script, Stylesheet, TemplateString,
  RubyTextString, RubyParenthesisString). \<open>get_text\<close> skips them all when it is called
  on any other tag, and \<open>find\<close> and \<open>find_all\<close> look at tags only, so no operation
  below looks at one. The elements themselves are tags of the tree like any other.
\<close>

datatype node =
    Tag (tag_name: string) (attrs: "(string \<times> string) list") (contents: "node list")
  | NavigableString string

text \<open>The descendants of a node in document order (a parent before its children).\<close>

fun descendants :: "node \<Rightarrow> node list" where
  "descendants (Tag n a cs) = concat (map (\<lambda>c. c # descendants c) cs)"
| "descendants (NavigableString s) = []"

text \<open>
  \<open>node.find_all(name, <attribute test>)\<close> and \<open>node.find(name, <attribute test>)\<close>: the
  matching tags among the descendants, in document order, and the first of them or
  \<open>None\<close>.
\<close>

definition matches :: "string \<Rightarrow> ((string \<times> string) list \<Rightarrow> bool) \<Rightarrow> node \<Rightarrow> bool" where
  "matches nm ok n = (case n of Tag t a cs \<Rightarrow> t = nm \<and> ok a | NavigableString s \<Rightarrow> False)"

definition find_all :: "node \<Rightarrow> string \<Rightarrow> ((string \<times> string) list \<Rightarrow> bool) \<Rightarrow> node list" where
  "find_all self nm ok = filter (matches nm ok) (descendants self)"

definition find :: "node \<Rightarrow> string \<Rightarrow> ((string \<times> string) list \<Rightarrow> bool) \<Rightarrow> node option" where
  "find self nm ok = (case find_all self nm ok of [] \<Rightarrow> None | x # xs \<Rightarrow> Some x)"

text \<open>\<open>tag.get(key)\<close>.\<close>

definition tag_get :: "node \<Rightarrow> string \<Rightarrow> string option" where
  "tag_get n k = (case n of Tag t a cs \<Rightarrow> map_of a k | NavigableString s \<Rightarrow> None)"

text \<open>
  The attribute tests of \<open>extract\<close>: \<open>id=lambda x: x and x.startswith("vcard")\<close>,
  \<open>class_=c\<close>, \<open>href=lambda h: h and p in h\<close>, \<open>href=lambda h: h and h.startswith(p)\<close>,
  and no test at all.
\<close>

definition id_vcard :: "(string \<times> string) list \<Rightarrow> bool" where
  "id_vcard a = (case map_of a ''id'' of None \<Rightarrow> False | Some x \<Rightarrow> x \<noteq> [] \<and> startswith x ''vcard'')"

definition has_class :: "string \<Rightarrow> (string \<times> string) list \<Rightarrow> bool" where
  "has_class c a = (case map_of a ''class'' of None \<Rightarrow> False | Some v \<Rightarrow> c \<in> set (py_split v))"

definition href_contains :: "string \<Rightarrow> (string \<times> string) list \<Rightarrow> bool" where
  "href_contains p a = (case map_of a ''href'' of None \<Rightarrow> False | Some h \<Rightarrow> h \<noteq> [] \<and> str_in p h)"

definition href_startswith :: "string \<Rightarrow> (string \<times> string) list \<Rightarrow> bool" where
  "href_startswith p a =
     (case map_of a ''href'' of None \<Rightarrow> False | Some h \<Rightarrow> h \<noteq> [] \<and> startswith h p)"

definition any_attrs :: "(string \<times> string) list \<Rightarrow> bool" where
  "any_attrs a = True"

text \<open>
  \<open>tag.get_text(separator=sep, strip=True)\<close>, for a tag other than \<open>script\<close>, \<open>style\<close>,
  \<open>template\<close>, \<open>rt\<close> and \<open>rp\<close> (the code calls it on \<open>div\<close>, \<open>a\<close> and \<open>span\<close> tags): the
  strings of the tree among the descendants, each stripped, the empty ones dropped,
  joined with \<open>sep\<close>. The strings that \<open>get_text\<close> skips are not in the tree.
\<close>

fun strings_of :: "node list \<Rightarrow> string list" where
  "strings_of [] = []"
| "strings_of (Tag t a cs # ns) = strings_of ns"
| "strings_of (NavigableString s # ns) = s # strings_of ns"

definition get_text :: "string \<Rightarrow> node \<Rightarrow> string" where
  "get_text sep n = py_join sep (filter (\<lambda>s. s \<noteq> []) (map py_strip (strings_of (descendants n))))"

subsection \<open>VideoInfoExtractor.extract\<close>

text \<open>
  The loop over the badges of a card. Its state \<open>(v, l, u)\<close> is the three variables
  \<open>views\<close>, \<open>likes\<close> and \<open>upload_date\<close>.
\<close>

fun classify_badges ::
  "node list \<Rightarrow> string option \<times> string option \<times> string option \<Rightarrow>
     string option \<times> string option \<times> string option" where
  "classify_badges [] st = st"
| "classify_badges (span # badges) (v, l, u) =
     (if find span ''i'' (has_class ''fa-eye'') \<noteq> None
        then classify_badges badges (Some (get_text [] span), l, u)
      else if find span ''i'' (has_class ''fa-thumbs-up'') \<noteq> None
        then classify_badges badges (v, Some (get_text [] span), u)
      else
        (let text = get_text [] span in
         if text \<noteq> [] \<and> list_ex is_alpha text
           then classify_badges badges (v, l, Some text)
         else classify_badges badges (v, l, u)))"

text \<open>
  The body of the loop over the cards: the record of one card, or the exception that
  leaves \<open>extract\<close>; the loop variable \<open>card\<close> is \<open>vcard\<close> here. \<open>scroll_text.split()\<close> on
  \<open>None\<close> raises AttributeError.
\<close>

definition extract_card :: "node \<Rightarrow> error + VideoInfo" where
  "extract_card vcard =
     (let vcard_id = tag_get vcard ''id'';
          idx = tag_get vcard ''idx'';
          fullpage_anchor = find vcard ''a'' (has_class ''fullpagelnk'');
          video_id = (case fullpage_anchor of Some a \<Rightarrow> tag_get a ''vid'' | None \<Rightarrow> None);
          thumb_img = find vcard ''img'' (has_class ''thumb-image'');
          thumbnail_url = (case thumb_img of Some i \<Rightarrow> tag_get i ''src'' | None \<Rightarrow> None);
          yt_anchor = find vcard ''a'' (href_contains ''youtube.com/watch'');
          video_link = (case yt_anchor of Some a \<Rightarrow> tag_get a ''href'' | None \<Rightarrow> None);
          title_div = find vcard ''div'' (has_class ''d-inline'');
          title = (case title_div of Some d \<Rightarrow> Some (get_text [] d) | None \<Rightarrow> None);
          channel_anchor = find vcard ''a'' (href_startswith ''/channel/'');
          channel = (case channel_anchor of Some a \<Rightarrow> Some (get_text [] a) | None \<Rightarrow> None);
          badges = find_all vcard ''span'' (has_class ''badge'');
          (views, likes, upload_date) = classify_badges badges (None, None, None);
          lang_anchor = find vcard ''a'' (href_contains ''/sidebyside'');
          language =
            (case lang_anchor of
               Some a \<Rightarrow> (case find a ''img'' any_attrs of Some i \<Rightarrow> tag_get i ''alt'' | None \<Rightarrow> None)
             | None \<Rightarrow> None);
          scroll_box = find vcard ''div'' (has_class ''scroll-box'');
          scroll_text = (case scroll_box of Some b \<Rightarrow> Some (get_text [CHR 0x0A] b) | None \<Rightarrow> None)
      in case scroll_text of
           None \<Rightarrow> Inl AttributeError
         | Some t \<Rightarrow>
             Inr \<lparr>vcard_id = vcard_id, idx = idx, video_id = video_id,
                  thumbnail_url = thumbnail_url, video_link = video_link,
                  VideoInfo.title = title, channel = channel, VideoInfo.views = views,
                  VideoInfo.likes = likes, upload_date = upload_date, language = language,
                  scroll_text = Some (py_join '' '' (py_split t))\<rparr>)"

fun extract_loop :: "node list \<Rightarrow> VideoInfo list \<Rightarrow> error + VideoInfo list" where
  "extract_loop [] video_list = Inr video_list"
| "extract_loop (vcard # cards) video_list =
     (case extract_card vcard of
        Inl e \<Rightarrow> Inl e
      | Inr video_info \<Rightarrow> extract_loop cards (video_list @ [video_info]))"

text \<open>
  \<open>VideoInfoExtractor.extract\<close>. The argument \<open>BeautifulSoup\<close> is the library's parser
  with \<open>html.parser\<close>, from the bytes of the page to the document.
\<close>

definition VideoInfoExtractor_extract ::
  "(string \<Rightarrow> node) \<Rightarrow> string \<Rightarrow> error + VideoInfo list" where
  "VideoInfoExtractor_extract BeautifulSoup html =
     (let soup = BeautifulSoup html;
          cards = find_all soup ''div'' id_vcard
      in extract_loop cards [])"

subsection \<open>The classes of badges\<close>

text \<open>
  The three branches of the badge loop as tests on a badge: the first branch is taken
  by a badge with an eye icon, the second by a badge with a thumbs-up icon and no eye
  icon, the assignment of the third by any other badge whose text has a letter.
  \<open>last_text bs d\<close> is the text of the last badge of \<open>bs\<close>, and \<open>d\<close> when there is none.
\<close>

definition is_views_badge :: "node \<Rightarrow> bool" where
  "is_views_badge span = (find span ''i'' (has_class ''fa-eye'') \<noteq> None)"

definition is_likes_badge :: "node \<Rightarrow> bool" where
  "is_likes_badge span =
     (find span ''i'' (has_class ''fa-eye'') = None \<and>
      find span ''i'' (has_class ''fa-thumbs-up'') \<noteq> None)"

definition is_date_badge :: "node \<Rightarrow> bool" where
  "is_date_badge span =
     (find span ''i'' (has_class ''fa-eye'') = None \<and>
      find span ''i'' (has_class ''fa-thumbs-up'') = None \<and>
      get_text [] span \<noteq> [] \<and> list_ex is_alpha (get_text [] span))"

definition last_text :: "node list \<Rightarrow> string option \<Rightarrow> string option" where
  "last_text bs d = (if bs = [] then d else Some (get_text [] (last bs)))"

text \<open>An element whose identifier attribute begins with \<open>vcard\<close>, whatever its name.\<close>

definition has_vcard_id :: "node \<Rightarrow> bool" where
  "has_vcard_id n = (case n of Tag t a cs \<Rightarrow> id_vcard a | NavigableString s \<Rightarrow> False)"

subsection \<open>Example documents\<close>

text \<open>
  \<open>doc_bare_card\<close> is the page \<^verbatim>\<open><div id="vcard1"></div>\<close>: one card with nothing in it.
  \<open>doc_span_card\<close> has one element whose id begins with \<open>vcard\<close>, a \<open>span\<close>.
  \<open>doc_two_dates\<close> has one card with two badges without icon, \<open>Jan 1, 2020\<close> and
  \<open>English\<close>. \<open>doc_three_badges\<close> has one card with a date badge, a likes badge and a
  views badge, in this order.
\<close>

definition snippet :: node where
  "snippet = Tag ''div'' [(''class'', ''scroll-box'')] [NavigableString ''some  words '']"

definition doc_bare_card :: node where
  "doc_bare_card = Tag ''[document]'' [] [Tag ''div'' [(''id'', ''vcard1'')] []]"

definition doc_span_card :: node where
  "doc_span_card = Tag ''[document]'' [] [Tag ''span'' [(''id'', ''vcard1'')] [snippet]]"

definition card_two_dates :: node where
  "card_two_dates =
     Tag ''div'' [(''id'', ''vcard1'')]
       [Tag ''span'' [(''class'', ''badge'')] [NavigableString ''Jan 1, 2020''],
        Tag ''span'' [(''class'', ''badge'')] [NavigableString ''English''],
        snippet]"

definition doc_two_dates :: node where
  "doc_two_dates = Tag ''[document]'' [] [card_two_dates]"

definition card_three_badges :: node where
  "card_three_badges =
     Tag ''div'' [(''id'', ''vcard7''), (''idx'', ''0'')]
       [Tag ''span'' [(''class'', ''badge badge-light'')] [NavigableString '' Jan 1, 2020 ''],
        Tag ''span'' [(''class'', ''badge'')]
          [Tag ''i'' [(''class'', ''fa fa-thumbs-up'')] [], NavigableString ''56''],
        Tag ''span'' [(''class'', ''badge'')]
          [Tag ''i'' [(''class'', ''fa fa-eye'')] [], NavigableString ''1,234''],
        snippet]"

definition doc_three_badges :: node where
  "doc_three_badges = Tag ''[document]'' [] [card_three_badges]"

section \<open>The standard library: percent-encoding, query strings and paths\<close>

text \<open>
  \<open>_build_search_url\<close> calls \<open>urllib.parse.quote\<close>, \<open>urllib.parse.urlencode\<close> and
  \<open>posixpath.join\<close>; reading a URL back is \<open>urllib.parse.urlsplit\<close> and
  \<open>urllib.parse.parse_qsl\<close>. They are modelled here as the library documents them.
  A byte is a \<open>char\<close>. A str is encoded to UTF-8 before it is quoted: a code point below
  128 is one byte, a code point from 128 to 255 is two.
\<close>

definition utf8_char :: "char \<Rightarrow> string" where
  "utf8_char c = (let n = (of_char c :: nat) in
     if n < 128 then [c] else [char_of (192 + n div 64), char_of (128 + n mod 64)])"

definition utf8_encode :: "string \<Rightarrow> string" where
  "utf8_encode s = concat (map utf8_char s)"

text \<open>
  Decoding, for the byte sequences that encode code points below 256; \<open>None\<close> for any
  other sequence, whose decoding is not a string of this model.
\<close>

fun utf8_decode :: "string \<Rightarrow> string option" where
  "utf8_decode [] = Some []"
| "utf8_decode [b] = (if (of_char b :: nat) < 128 then Some [b] else None)"
| "utf8_decode (b1 # b2 # bs) =
     (let n1 = (of_char b1 :: nat); n2 = (of_char b2 :: nat) in
      if n1 < 128 then map_option ((#) b1) (utf8_decode (b2 # bs))
      else if (n1 = 194 \<or> n1 = 195) \<and> 128 \<le> n2 \<and> n2 < 192
        then map_option ((#) (char_of ((n1 - 192) * 64 + (n2 - 128)))) (utf8_decode bs)
      else None)"

text \<open>
  The characters that are never quoted, and \<open>%XX\<close> for a byte that is not safe.
\<close>

definition unreserved :: "char \<Rightarrow> bool" where
  "unreserved c =
     (c \<in> set ''ABCDEFGHIJKLMNOPQRSTUVWXYZabcdefghijklmnopqrstuvwxyz0123456789_.-~'')"

definition hex_digit :: "nat \<Rightarrow> char" where
  "hex_digit k = ''0123456789ABCDEF'' ! k"

definition quote_byte :: "(char \<Rightarrow> bool) \<Rightarrow> char \<Rightarrow> string" where
  "quote_byte safe b =
     (if safe b then [b]
      else [CHR ''%'', hex_digit ((of_char b :: nat) div 16), hex_digit ((of_char b :: nat) mod 16)])"

text \<open>\<open>quote(s)\<close>, with its default \<open>safe='/'\<close>, and \<open>quote_plus(s)\<close>.\<close>

definition quote :: "string \<Rightarrow> string" where
  "quote s = concat (map (quote_byte (\<lambda>c. unreserved c \<or> c = CHR ''/'')) (utf8_encode s))"

definition quote_plus :: "string \<Rightarrow> string" where
  "quote_plus s =
     concat (map (\<lambda>b. if b = CHR '' '' then ''+'' else quote_byte unreserved b) (utf8_encode s))"

text \<open>\<open>urlencode(params)\<close> for a dict from str to str, given by its items in order.\<close>

definition urlencode :: "(string \<times> string) list \<Rightarrow> string" where
  "urlencode params = py_join ''&'' (map (\<lambda>(k, v). quote_plus k @ ''='' @ quote_plus v) params)"

text \<open>
  \<open>s.split(sep)\<close> for a separator of one character, and \<open>s.split(sep, 1)\<close> when \<open>sep\<close>
  occurs in \<open>s\<close> (\<open>None\<close> when it does not: the result has one part only).
\<close>

fun split_on :: "char \<Rightarrow> string \<Rightarrow> string list" where
  "split_on sep [] = [[]]"
| "split_on sep (c # cs) =
     (if c = sep then [] # split_on sep cs
      else (case split_on sep cs of [] \<Rightarrow> [[c]] | x # xs \<Rightarrow> (c # x) # xs))"

definition split_first :: "char \<Rightarrow> string \<Rightarrow> (string \<times> string) option" where
  "split_first sep s =
     (case dropWhile (\<lambda>c. c \<noteq> sep) s of
        [] \<Rightarrow> None
      | c # r \<Rightarrow> Some (takeWhile (\<lambda>c. c \<noteq> sep) s, r))"

text \<open>
  \<open>unquote_to_bytes\<close>: \<open>%XX\<close> with two hexadecimal digits becomes a byte, anything else
  stays. \<open>unquote\<close> of an ASCII text decodes these bytes from UTF-8, and \<open>unquote_plus\<close>
  replaces \<open>+\<close> by a space first.
\<close>

definition hex_value :: "char \<Rightarrow> nat option" where
  "hex_value c = (let n = (of_char c :: nat) in
     if 48 \<le> n \<and> n \<le> 57 then Some (n - 48)
     else if 65 \<le> n \<and> n \<le> 70 then Some (n - 55)
     else if 97 \<le> n \<and> n \<le> 102 then Some (n - 87)
     else None)"

fun unquote_to_bytes :: "string \<Rightarrow> string" where
  "unquote_to_bytes [] = []"
| "unquote_to_bytes [c] = [c]"
| "unquote_to_bytes [c, d] = [c, d]"
| "unquote_to_bytes (c # h1 # h2 # r) =
     (if c = CHR ''%'' then
        (case (hex_value h1, hex_value h2) of
           (Some a, Some b) \<Rightarrow> char_of (16 * a + b) # unquote_to_bytes r
         | _ \<Rightarrow> c # unquote_to_bytes (h1 # h2 # r))
      else c # unquote_to_bytes (h1 # h2 # r))"

definition unquote_plus :: "string \<Rightarrow> string option" where
  "unquote_plus s =
     utf8_decode (unquote_to_bytes (map (\<lambda>c. if c = CHR ''+'' then CHR '' '' else c) s))"

text \<open>
  \<open>parse_qsl(qs)\<close> with its defaults: the fields are separated by \<open>&\<close>; a field that is
  empty, has no \<open>=\<close> or has an empty value is dropped; name and value are unquoted.
\<close>

fun parse_fields :: "string list \<Rightarrow> (string \<times> string) list option" where
  "parse_fields [] = Some []"
| "parse_fields (name_value # rest) =
     (if name_value = [] then parse_fields rest
      else
        (case split_first (CHR ''='') name_value of
           None \<Rightarrow> parse_fields rest
         | Some (n, v) \<Rightarrow>
             if v = [] then parse_fields rest
             else
               (case (unquote_plus n, unquote_plus v, parse_fields rest) of
                  (Some name, Some val, Some r) \<Rightarrow> Some ((name, val) # r)
                | _ \<Rightarrow> None)))"

definition parse_qsl :: "string \<Rightarrow> (string \<times> string) list option" where
  "parse_qsl qs = (if qs = [] then Some [] else parse_fields (split_on (CHR ''&'') qs))"

text \<open>
  The query component of a URL, as \<open>urlsplit(url).query\<close> gives it: what follows the
  first \<open>?\<close>, up to the first \<open>#\<close>.
\<close>

definition urlsplit_query :: "string \<Rightarrow> string" where
  "urlsplit_query url =
     (case dropWhile (\<lambda>c. c \<noteq> CHR ''?'') (takeWhile (\<lambda>c. c \<noteq> CHR ''#'') url) of
        [] \<Rightarrow> []
      | c # q \<Rightarrow> q)"

text \<open>\<open>posixpath.join(a, b)\<close>.\<close>

definition posixpath_join :: "string \<Rightarrow> string \<Rightarrow> string" where
  "posixpath_join a b =
     (if startswith b ''/'' then b
      else if a = [] \<or> last a = CHR ''/'' then a @ b
      else a @ ''/'' @ b)"

text \<open>
  \<open>urljoin\<close> stays a parameter of \<open>_build_search_url\<close>. What is used of it: joined to a
  reference made of a non-empty path and a query, both written with the characters that
  \<open>quote\<close> and \<open>urlencode\<close> produce, the URL has the query of the reference as its query.
\<close>

definition path_char :: "char \<Rightarrow> bool" where
  "path_char c = (unreserved c \<or> c = CHR ''/'' \<or> c = CHR ''%'')"

definition query_char :: "char \<Rightarrow> bool" where
  "query_char c = (unreserved c \<or> c = CHR ''%'' \<or> c = CHR ''+'' \<or> c = CHR ''='' \<or> c = CHR ''&'')"

definition keeps_query :: "(string \<Rightarrow> string \<Rightarrow> string) \<Rightarrow> string \<Rightarrow> bool" where
  "keeps_query urljoin base =
     (\<forall>p q. p \<noteq> [] \<and> list_all path_char p \<and> list_all query_char q \<longrightarrow>
        urlsplit_query (urljoin base (p @ ''?'' @ q)) = q)"

section \<open>client.py: lazy iteration over the result pages\<close>

text \<open>
  \<open>search_all\<close> is a generator: it fetches page 1, 2, ... with \<open>_search_page\<close>, yields
  the records of each page and stops at the first page with no record. The argument
  \<open>search_page k\<close> stands for \<open>self._search_page(query, channel_id, filters,
  sort_option, k)\<close>, which returns a list of records or raises. The loop has no bound
  of its own, so the model is a partial function: \<open>None\<close> means the generator never
  ends. A result \<open>Some (ys, r)\<close> gives the records yielded, in order, and how the
  generator ended: \<open>None\<close> for a normal end, \<open>Some e\<close> for the exception \<open>e\<close>.
\<close>

partial_function (option) search_all_loop ::
  "(int \<Rightarrow> error + 'v list) \<Rightarrow> int \<Rightarrow> 'v list \<Rightarrow> ('v list \<times> error option) option" where
  "search_all_loop search_page page_id yielded =
     (case search_page page_id of
        Inl e \<Rightarrow> Some (yielded, Some e)
      | Inr videos \<Rightarrow>
          if videos = [] then Some (yielded, None)
          else search_all_loop search_page (page_id + 1) (yielded @ videos))"

definition search_all :: "(int \<Rightarrow> error + 'v list) \<Rightarrow> ('v list \<times> error option) option" where
  "search_all search_page = search_all_loop search_page 1 []"

section \<open>sorting.py, filters.py and client.py: the search URL\<close>

text \<open>The values of the enumerations.\<close>

fun LicenseType_value :: "LicenseType \<Rightarrow> string" where
  "LicenseType_value ANY = ''0''"
| "LicenseType_value CREATIVE_COMMONS = ''2''"
| "LicenseType_value YOUTUBE_LICENSE = ''1''"

fun SortField_value :: "SortField \<Rightarrow> string" where
  "SortField_value UPLOAD_DATE = ''uploaddate''"
| "SortField_value ID = ''id''"
| "SortField_value VIEW_COUNT = ''viewcount''"
| "SortField_value LIKE_COUNT = ''likecount''"
| "SortField_value CHAN_RANK = ''chanrank''"
| "SortField_value DURATION = ''duration''"

fun SortOrder_value :: "SortOrder \<Rightarrow> string" where
  "SortOrder_value DESC = ''desc''"
| "SortOrder_value ASC = ''asc''"

record SortOption =
  field :: SortField
  order :: SortOrder

text \<open>
  A value of a parameter dict is a str or an int; \<open>py_str\<close> is \<open>str(v)\<close>. A dict is the
  list of its items in insertion order; \<open>dict_set k v d\<close> is \<open>d[k] = v\<close> and
  \<open>dict_update d e\<close> is \<open>d.update(e)\<close>.
\<close>

datatype pyval = PStr string | PInt int

fun py_str :: "pyval \<Rightarrow> string" where
  "py_str (PStr s) = s"
| "py_str (PInt n) = str_int n"

fun dict_set :: "'k \<Rightarrow> 'v \<Rightarrow> ('k \<times> 'v) list \<Rightarrow> ('k \<times> 'v) list" where
  "dict_set k v [] = [(k, v)]"
| "dict_set k v ((k', v') # d) = (if k = k' then (k, v) # d else (k', v') # dict_set k v d)"

definition dict_update :: "('k \<times> 'v) list \<Rightarrow> ('k \<times> 'v) list \<Rightarrow> ('k \<times> 'v) list" where
  "dict_update d e = fold (\<lambda>(k, v). dict_set k v) e d"

text \<open>\<open>date.isoformat()\<close>: year, month and day with four, two and two digits.\<close>

definition zero_pad :: "nat \<Rightarrow> string \<Rightarrow> string" where
  "zero_pad n s = replicate (n - length s) (CHR ''0'') @ s"

definition isoformat :: "date \<Rightarrow> string" where
  "isoformat d =
     zero_pad 4 (str_int (year d)) @ ''-'' @ zero_pad 2 (str_int (month d)) @ ''-'' @
     zero_pad 2 (str_int (day d))"

text \<open>
  \<open>Filters.to_dict\<close>. The tests \<open>if self.title\<close>, \<open>if self.duration\<close>, ... are tests of
  truth: an empty title is skipped like \<open>None\<close>, a tuple and a member of \<open>LicenseType\<close> are
  always true. The dates may be \<open>None\<close> in \<open>data\<close>; the last line drops them.
\<close>

definition to_dict :: "Filters \<Rightarrow> (string \<times> pyval) list" where
  "to_dict self =
     (let data = [];
          data = (case Filters.title self of
                    Some t \<Rightarrow> if t \<noteq> [] then dict_set ''title'' (Some (PStr t)) data else data
                  | None \<Rightarrow> data);
          data = (case duration self of
                    Some (a, b) \<Rightarrow>
                      dict_set ''endDuration'' (Some (PInt b))
                        (dict_set ''startDuration'' (Some (PInt a)) data)
                  | None \<Rightarrow> data);
          data = (case Filters.views self of
                    Some (a, b) \<Rightarrow>
                      dict_set ''maxViews'' (Some (PInt b)) (dict_set ''minViews'' (Some (PInt a)) data)
                  | None \<Rightarrow> data);
          data = (case Filters.likes self of
                    Some (a, b) \<Rightarrow>
                      dict_set ''maxLikes'' (Some (PInt b)) (dict_set ''minLikes'' (Some (PInt a)) data)
                  | None \<Rightarrow> data);
          data = (case date_range self of
                    Some (a, b) \<Rightarrow>
                      dict_set ''endDate'' (map_option (\<lambda>d. PStr (isoformat d)) b)
                        (dict_set ''startDate'' (map_option (\<lambda>d. PStr (isoformat d)) a) data)
                  | None \<Rightarrow> data);
          data = (case license self of
                    Some l \<Rightarrow> dict_set ''license'' (Some (PStr (LicenseType_value l))) data
                  | None \<Rightarrow> data)
      in List.map_filter (\<lambda>(k, v). map_option (\<lambda>x. (k, x)) v) data)"

text \<open>\<open>SortOption.to_dict\<close>.\<close>

definition sort_to_dict :: "SortOption \<Rightarrow> (string \<times> pyval) list" where
  "sort_to_dict self =
     [(''sortField'', PStr (SortField_value (field self))),
      (''sortOrder'', PStr (SortOrder_value (order self)))]"

text \<open>
  \<open>YoutubeCaptionFinder._build_search_url\<close>. An argument that is \<open>None\<close> is \<open>None\<close> here;
  the first argument is \<open>urllib.parse.urljoin\<close>.
\<close>

definition BASE_URL :: string where
  "BASE_URL = ''https://filmot.com/search/''"

definition build_search_url ::
  "(string \<Rightarrow> string \<Rightarrow> string) \<Rightarrow> string \<Rightarrow> string option \<Rightarrow> Filters option \<Rightarrow>
     SortOption option \<Rightarrow> int \<Rightarrow> string" where
  "build_search_url urljoin query = (\<lambda>channel_id filters sort_option page_id.
     (let params = [(''gridView'', PInt 1)];
          params = (case channel_id of
                      Some c \<Rightarrow> if c \<noteq> [] then dict_set ''channelID'' (PStr c) params else params
                    | None \<Rightarrow> params);
          params = (case filters of Some f \<Rightarrow> dict_update params (to_dict f) | None \<Rightarrow> params);
          params = (case sort_option of
                      Some s \<Rightarrow> dict_update params (sort_to_dict s)
                    | None \<Rightarrow> params);
          params = map (\<lambda>(k, v). (k, py_str v)) params;
          query_encoded = quote query;
          path = ''1/'' @ str_int page_id @ ''?'' @ urlencode params;
          suburl = posixpath_join query_encoded path
      in urljoin BASE_URL suburl))"

subsection \<open>The parameters on the wire\<close>

text \<open>
  What the interface says a built URL carries, in the order of the query string:
  \<open>gridView=1\<close>, the channel identifier if there is one, each filter field that is set,
  under its wire name, and the sort field and order. A title or a channel identifier is
  set when it is a non-empty string.
\<close>

definition wire_range :: "string \<Rightarrow> string \<Rightarrow> (int \<times> int) option \<Rightarrow> (string \<times> string) list" where
  "wire_range lo hi r =
     (case r of Some (a, b) \<Rightarrow> [(lo, str_int a), (hi, str_int b)] | None \<Rightarrow> [])"

definition wire_date :: "string \<Rightarrow> date option \<Rightarrow> (string \<times> string) list" where
  "wire_date k d = (case d of Some x \<Rightarrow> [(k, isoformat x)] | None \<Rightarrow> [])"

definition wire_filters :: "Filters \<Rightarrow> (string \<times> string) list" where
  "wire_filters f =
     (case Filters.title f of Some t \<Rightarrow> if t \<noteq> [] then [(''title'', t)] else [] | None \<Rightarrow> []) @
     wire_range ''startDuration'' ''endDuration'' (duration f) @
     wire_range ''minViews'' ''maxViews'' (Filters.views f) @
     wire_range ''minLikes'' ''maxLikes'' (Filters.likes f) @
     (case date_range f of
        Some (a, b) \<Rightarrow> wire_date ''startDate'' a @ wire_date ''endDate'' b
      | None \<Rightarrow> []) @
     (case license f of Some l \<Rightarrow> [(''license'', LicenseType_value l)] | None \<Rightarrow> [])"

definition wire_params ::
  "string option \<Rightarrow> Filters option \<Rightarrow> SortOption option \<Rightarrow> (string \<times> string) list" where
  "wire_params cid filters sort_option =
     [(''gridView'', ''1'')] @
     (case cid of Some c \<Rightarrow> if c \<noteq> [] then [(''channelID'', c)] else [] | None \<Rightarrow> []) @
     (case filters of Some f \<Rightarrow> wire_filters f | None \<Rightarrow> []) @
     (case sort_option of
        Some s \<Rightarrow> [(''sortField'', SortField_value (field s)), (''sortOrder'', SortOrder_value (order s))]
      | None \<Rightarrow> [])"

subsection \<open>Example searches\<close>

text \<open>
  \<open>join_plain\<close> is what \<open>urljoin\<close> does with a base that ends with a slash and a
  reference with no scheme, no leading slash and no dot segment: the reference is put
  after the base. \<open>filters_example\<close> sets a title, a views range, a start date and a
  license; \<open>filters_empty_title\<close> sets the title to the empty string and nothing else.
\<close>

definition join_plain :: "string \<Rightarrow> string \<Rightarrow> string" where
  "join_plain base url = base @ url"

definition filters_example :: Filters where
  "filters_example =
     \<lparr>Filters.title = Some ''a b&c'', Filters.views = Some (0, 10), Filters.likes = None,
      duration = None, date_range = Some (Some (Date 2020 1 5), None),
      license = Some CREATIVE_COMMONS\<rparr>"

definition filters_empty_title :: Filters where
  "filters_empty_title =
     \<lparr>Filters.title = Some [], Filters.views = None, Filters.likes = None,
      duration = None, date_range = None, license = None\<rparr>"

definition sort_example :: SortOption where
  "sort_example = \<lparr>field = VIEW_COUNT, order = DESC\<rparr>"

subsection \<open>Notions for the proofs about the search URL\<close>

text \<open>
  \<open>enc_char\<close>: the characters of a quoted name or value. \<open>item\<close>: one field of a query
  string. \<open>keys_if\<close> and \<open>chosen\<close>: the keys of the parts of a dict that are present.
  \<open>channel_part\<close>, \<open>filters_part\<close> and \<open>sort_part\<close>: what each argument of
  \<open>_build_search_url\<close> adds to \<open>params\<close>.
\<close>

definition enc_char :: "char \<Rightarrow> bool" where
  "enc_char c = (unreserved c \<or> c = CHR ''%'' \<or> c = CHR ''+'')"

definition plus_to_space :: "char \<Rightarrow> char" where
  "plus_to_space c = (if c = CHR ''+'' then CHR '' '' else c)"

definition item :: "string \<times> string \<Rightarrow> string" where
  "item kv = quote_plus (fst kv) @ ''='' @ quote_plus (snd kv)"

definition keys_if :: "bool \<Rightarrow> string list \<Rightarrow> string list" where
  "keys_if b ks = (if b then ks else [])"

definition chosen :: "(bool \<times> string list) list \<Rightarrow> string list" where
  "chosen parts = concat (map (\<lambda>(b, ks). keys_if b ks) parts)"

definition filter_names :: "string list" where
  "filter_names = [''title'', ''startDuration'', ''endDuration'', ''minViews'', ''maxViews'',
     ''minLikes'', ''maxLikes'', ''startDate'', ''endDate'', ''license'']"

definition channel_part :: "string option \<Rightarrow> (string \<times> pyval) list" where
  "channel_part cid = (case cid of Some c \<Rightarrow> if c \<noteq> [] then [(''channelID'', PStr c)] else [] | None \<Rightarrow> [])"

definition filters_part :: "Filters option \<Rightarrow> (string \<times> pyval) list" where
  "filters_part filters = (case filters of Some f \<Rightarrow> to_dict f | None \<Rightarrow> [])"

definition sort_part :: "SortOption option \<Rightarrow> (string \<times> pyval) list" where
  "sort_part sort_option = (case sort_option of Some s \<Rightarrow> sort_to_dict s | None \<Rightarrow> [])"

section \<open>Range validation of the Filters setters\<close>

lemma set_views_cases:
  "set_views f a b =
     (if 0 \<le> a \<and> a \<le> b \<and> b \<le> 6000000000
      then (Inr (), f\<lparr>views := Some (a, b)\<rparr>) else (fst (set_views f a b), f))"
  by (simp add: set_views_def MIN_VIEWS_def MAX_VIEWS_def)

lemma set_likes_cases:
  "set_likes f a b =
     (if 30 \<le> a \<and> a \<le> b \<and> b \<le> 6000000000
      then (Inr (), f\<lparr>likes := Some (a, b)\<rparr>) else (fst (set_likes f a b), f))"
  by (simp add: set_likes_def MIN_LIKES_def MAX_LIKES_def)

lemma set_duration_cases:
  "set_duration f a b =
     (if 1 \<le> a \<and> a \<le> b \<and> b \<le> 86400
      then (Inr (), f\<lparr>duration := Some (a, b)\<rparr>) else (fst (set_duration f a b), f))"
  by (simp add: set_duration_def MIN_DURATION_def MAX_DURATION_def)

lemma set_views_error:
  "\<not> (0 \<le> a \<and> a \<le> b \<and> b \<le> 6000000000) \<Longrightarrow> is_ValueError (fst (set_views f a b))"
  by (auto simp: set_views_def MIN_VIEWS_def MAX_VIEWS_def is_ValueError_def)

lemma set_likes_error:
  "\<not> (30 \<le> a \<and> a \<le> b \<and> b \<le> 6000000000) \<Longrightarrow> is_ValueError (fst (set_likes f a b))"
  by (auto simp: set_likes_def MIN_LIKES_def MAX_LIKES_def is_ValueError_def)

lemma set_duration_error:
  "\<not> (1 \<le> a \<and> a \<le> b \<and> b \<le> 86400) \<Longrightarrow> is_ValueError (fst (set_duration f a b))"
  by (auto simp: set_duration_def MIN_DURATION_def MAX_DURATION_def is_ValueError_def)

text \<open>
  Claim C10. For every Filters object \<open>f\<close> and all integers \<open>a\<close>, \<open>b\<close>:
  \<open>set_views\<close> succeeds exactly when \<open>0 \<le> a \<le> b \<le> 6000000000\<close>, \<open>set_likes\<close> exactly
  when \<open>30 \<le> a \<le> b \<le> 6000000000\<close>, \<open>set_duration\<close> exactly when
  \<open>1 \<le> a \<le> b \<le> 86400\<close>. A successful call stores the pair \<open>(a, b)\<close> in its field and
  touches no other field; a failed call raises ValueError and leaves the whole object
  as it was.
\<close>

theorem filters_setters_validate:
  "(fst (set_views f a b) = Inr () \<longleftrightarrow> 0 \<le> a \<and> a \<le> b \<and> b \<le> 6000000000) \<and>
   (fst (set_likes f a b) = Inr () \<longleftrightarrow> 30 \<le> a \<and> a \<le> b \<and> b \<le> 6000000000) \<and>
   (fst (set_duration f a b) = Inr () \<longleftrightarrow> 1 \<le> a \<and> a \<le> b \<and> b \<le> 86400) \<and>
   snd (set_views f a b) =
     (if fst (set_views f a b) = Inr () then f\<lparr>views := Some (a, b)\<rparr> else f) \<and>
   snd (set_likes f a b) =
     (if fst (set_likes f a b) = Inr () then f\<lparr>likes := Some (a, b)\<rparr> else f) \<and>
   snd (set_duration f a b) =
     (if fst (set_duration f a b) = Inr () then f\<lparr>duration := Some (a, b)\<rparr> else f) \<and>
   (is_ValueError (fst (set_views f a b)) \<or> fst (set_views f a b) = Inr ()) \<and>
   (is_ValueError (fst (set_likes f a b)) \<or> fst (set_likes f a b) = Inr ()) \<and>
   (is_ValueError (fst (set_duration f a b)) \<or> fst (set_duration f a b) = Inr ())"
proof -
  have v: "fst (set_views f a b) = Inr () \<longleftrightarrow> 0 \<le> a \<and> a \<le> b \<and> b \<le> 6000000000"
    by (auto simp: set_views_def MIN_VIEWS_def MAX_VIEWS_def)
  have l: "fst (set_likes f a b) = Inr () \<longleftrightarrow> 30 \<le> a \<and> a \<le> b \<and> b \<le> 6000000000"
    by (auto simp: set_likes_def MIN_LIKES_def MAX_LIKES_def)
  have d: "fst (set_duration f a b) = Inr () \<longleftrightarrow> 1 \<le> a \<and> a \<le> b \<and> b \<le> 86400"
    by (auto simp: set_duration_def MIN_DURATION_def MAX_DURATION_def)
  have sv: "snd (set_views f a b) =
      (if fst (set_views f a b) = Inr () then f\<lparr>views := Some (a, b)\<rparr> else f)"
    unfolding v by (subst set_views_cases) simp
  have sl: "snd (set_likes f a b) =
      (if fst (set_likes f a b) = Inr () then f\<lparr>likes := Some (a, b)\<rparr> else f)"
    unfolding l by (subst set_likes_cases) simp
  have sd: "snd (set_duration f a b) =
      (if fst (set_duration f a b) = Inr () then f\<lparr>duration := Some (a, b)\<rparr> else f)"
    unfolding d by (subst set_duration_cases) simp
  have ev: "is_ValueError (fst (set_views f a b)) \<or> fst (set_views f a b) = Inr ()"
    using set_views_error [of a b f] v by blast
  have el: "is_ValueError (fst (set_likes f a b)) \<or> fst (set_likes f a b) = Inr ()"
    using set_likes_error [of a b f] l by blast
  have ed: "is_ValueError (fst (set_duration f a b)) \<or> fst (set_duration f a b) = Inr ()"
    using set_duration_error [of a b f] d by blast
  from v l d sv sl sd ev el ed show ?thesis by blast
qed

section \<open>The brace-balancing scan on JSON texts\<close>

lemma scan_string_char:
  "scan s i d False sc esc = scan s i d False sc' esc"
  by (induction s arbitrary: i d) simp_all

lemma neutralI:
  assumes "\<And>rest i d sc. 0 < d \<Longrightarrow>
     scan (t @ rest) i d False sc False = scan rest (i + length t) d False sc False"
  shows "neutral t"
  using assms by (simp add: neutral_def)

lemma neutralD:
  "neutral t \<Longrightarrow> 0 < d \<Longrightarrow>
     scan (t @ rest) i d False sc False = scan rest (i + length t) d False sc False"
  by (simp add: neutral_def)

lemma neutral_Nil: "neutral []"
  by (simp add: neutral_def)

lemma neutral_append: "neutral a \<Longrightarrow> neutral b \<Longrightarrow> neutral (a @ b)"
  by (simp add: neutral_def add.assoc)

lemma neutral_plain_char: "plain c \<Longrightarrow> neutral [c]"
  by (simp add: neutral_def plain_def)

lemma neutral_plain: "list_all plain t \<Longrightarrow> neutral t"
proof (induction t)
  case Nil
  show ?case by (rule neutral_Nil)
next
  case (Cons c t)
  then have "neutral ([c] @ t)" by (intro neutral_append neutral_plain_char) simp_all
  then show ?case by simp
qed

lemma plain_ws_char:
  "c = CHR '' '' \<or> c = CHR 0x09 \<or> c = CHR 0x0A \<or> c = CHR 0x0D \<Longrightarrow> plain c"
  by (elim disjE) (simp_all add: plain_def)

lemma plain_ws: "json_ws w \<Longrightarrow> list_all plain w"
  unfolding json_ws_def by (erule list.pred_mono_strong) (rule plain_ws_char)

lemma neutral_ws: "json_ws w \<Longrightarrow> neutral w"
  by (rule neutral_plain) (rule plain_ws)

lemma plain_digit: "is_digit c \<Longrightarrow> plain c"
  by (auto simp: is_digit_def plain_def)

lemma plain_digits: "digits ds \<Longrightarrow> list_all plain ds"
  by (simp add: digits_def list_all_iff plain_digit)

lemma plain_int: "json_int i \<Longrightarrow> list_all plain i"
  unfolding json_int_def
proof (erule disjE)
  assume "i = ''0''" then show "list_all plain i" by (simp add: plain_def)
next
  assume "digits i \<and> hd i \<noteq> CHR ''0''" then show "list_all plain i" by (simp add: plain_digits)
qed

lemma plain_frac: "json_frac f \<Longrightarrow> list_all plain f"
  unfolding json_frac_def
proof (elim disjE exE conjE)
  assume "f = []" then show "list_all plain f" by simp
next
  fix ds assume "f = CHR ''.'' # ds" "digits ds"
  then show "list_all plain f" by (simp add: plain_digits plain_def)
qed

lemma plain_sign: "sg = [] \<or> sg = ''+'' \<or> sg = ''-'' \<Longrightarrow> list_all plain sg"
  by (elim disjE) (simp_all add: plain_def)

lemma plain_exp: "json_exp x \<Longrightarrow> list_all plain x"
proof -
  assume "json_exp x"
  then consider "x = []"
    | c sg ds where "x = c # sg @ ds" "c = CHR ''e'' \<or> c = CHR ''E''"
        "sg = [] \<or> sg = ''+'' \<or> sg = ''-''" "digits ds"
    unfolding json_exp_def by blast
  then show "list_all plain x"
  proof cases
    case 1
    then show ?thesis by simp
  next
    case 2
    have "plain c" using 2(2) by (elim disjE) (simp_all add: plain_def)
    with plain_sign [OF 2(3)] plain_digits [OF 2(4)] 2(1) show ?thesis by simp
  qed
qed

lemma plain_number: "json_number n \<Longrightarrow> list_all plain n"
  unfolding json_number_def
proof (elim exE conjE)
  fix sg i f x
  assume n: "n = sg @ i @ f @ x" and sg: "sg = [] \<or> sg = ''-''"
    and i: "json_int i" and f: "json_frac f" and x: "json_exp x"
  from sg have "list_all plain sg" by (intro plain_sign) blast
  with plain_int [OF i] plain_frac [OF f] plain_exp [OF x] n show "list_all plain n" by simp
qed

lemma neutral_number: "json_number n \<Longrightarrow> neutral n"
  by (rule neutral_plain) (rule plain_number)

lemma hex_not_special: "is_hex h \<Longrightarrow> h \<noteq> CHR 0x22 \<and> h \<noteq> CHR 0x5C"
  by (auto simp: is_hex_def)

lemma scan_in_string_plain:
  "c \<noteq> CHR 0x22 \<Longrightarrow> c \<noteq> CHR 0x5C \<Longrightarrow>
     scan (c # rest) i d True [CHR 0x22] False = scan rest (i + 1) d True [CHR 0x22] False"
  by simp

lemma scan_in_string_escape:
  "scan (CHR 0x5C # e # rest) i d True [CHR 0x22] False = scan rest (i + 2) d True [CHR 0x22] False"
  by (simp add: numeral_2_eq_2)

lemma scan_json_chars:
  "json_chars s \<Longrightarrow>
     scan (s @ CHR 0x22 # rest) i d True [CHR 0x22] False =
     scan rest (i + length s + 1) d False [CHR 0x22] False"
proof (induction s arbitrary: i rule: json_chars.induct)
  case chars_end
  show ?case by simp
next
  case (chars_plain s c)
  have "scan ((c # s) @ CHR 0x22 # rest) i d True [CHR 0x22] False =
        scan (s @ CHR 0x22 # rest) (i + 1) d True [CHR 0x22] False"
    using chars_plain.hyps by simp
  then show ?case by (simp add: chars_plain.IH)
next
  case (chars_escape s e)
  have "scan ((CHR 0x5C # e # s) @ CHR 0x22 # rest) i d True [CHR 0x22] False =
        scan (s @ CHR 0x22 # rest) (i + 2) d True [CHR 0x22] False"
    by (simp add: numeral_2_eq_2)
  then show ?case by (simp add: chars_escape.IH)
next
  case (chars_unicode s h1 h2 h3 h4)
  have "scan ((CHR 0x5C # CHR ''u'' # h1 # h2 # h3 # h4 # s) @ CHR 0x22 # rest) i d True [CHR 0x22] False =
        scan (h1 # h2 # h3 # h4 # s @ CHR 0x22 # rest) (i + 2) d True [CHR 0x22] False"
    by (simp add: numeral_2_eq_2)
  also have "\<dots> = scan (s @ CHR 0x22 # rest) (i + 2 + 1 + 1 + 1 + 1) d True [CHR 0x22] False"
    using hex_not_special [OF chars_unicode.hyps(2)] hex_not_special [OF chars_unicode.hyps(3)]
      hex_not_special [OF chars_unicode.hyps(4)] hex_not_special [OF chars_unicode.hyps(5)]
    by simp
  finally show ?case by (simp add: chars_unicode.IH)
qed

lemma neutral_string: "json_chars s \<Longrightarrow> neutral (CHR 0x22 # s @ [CHR 0x22])"
proof (rule neutralI)
  fix rest i d sc
  assume s: "json_chars s"
  have "scan ((CHR 0x22 # s @ [CHR 0x22]) @ rest) i d False sc False =
        scan (s @ CHR 0x22 # rest) (i + 1) d True [CHR 0x22] False"
    by simp
  also have "\<dots> = scan rest (i + 1 + length s + 1) d False [CHR 0x22] False"
    by (rule scan_json_chars [OF s])
  also have "\<dots> = scan rest (i + 1 + length s + 1) d False sc False"
    by (rule scan_string_char)
  finally show "scan ((CHR 0x22 # s @ [CHR 0x22]) @ rest) i d False sc False =
        scan rest (i + length (CHR 0x22 # s @ [CHR 0x22])) d False sc False"
    by (simp add: add.commute add.left_commute)
qed

lemma neutral_braces: "neutral body \<Longrightarrow> neutral (CHR ''{'' # body @ ''}'')"
proof (rule neutralI)
  fix rest i and d :: int and sc
  assume b: "neutral body" and d: "0 < d"
  have "scan ((CHR ''{'' # body @ ''}'') @ rest) i d False sc False =
        scan (body @ CHR ''}'' # rest) (i + 1) (d + 1) False sc False"
    by simp
  also have "\<dots> = scan (CHR ''}'' # rest) (i + 1 + length body) (d + 1) False sc False"
    using d by (intro neutralD [OF b]) simp
  also have "\<dots> = scan rest (i + 1 + length body + 1) d False sc False"
    using d by simp
  finally show "scan ((CHR ''{'' # body @ ''}'') @ rest) i d False sc False =
        scan rest (i + length (CHR ''{'' # body @ ''}'')) d False sc False"
    by (simp add: add.commute add.left_commute)
qed

lemma neutral_brackets: "neutral body \<Longrightarrow> neutral (CHR ''['' # body @ '']'')"
proof -
  assume b: "neutral body"
  have "neutral ([CHR ''[''] @ body @ [CHR '']''])"
    by (intro neutral_append neutral_plain_char b) (simp_all add: plain_def)
  then show ?thesis by simp
qed

lemma neutral_literal: "neutral ''true''" "neutral ''false''" "neutral ''null''" "neutral '',''" "neutral '':''"
  by (rule neutral_plain, simp add: plain_def)+

lemma neutral_json:
  "(json_value v \<longrightarrow> neutral v) \<and> (json_element e \<longrightarrow> neutral e) \<and> (json_elements es \<longrightarrow> neutral es) \<and>
   (json_member m \<longrightarrow> neutral m) \<and> (json_members ms \<longrightarrow> neutral ms)"
proof (induction rule: json_value_json_element_json_elements_json_member_json_members.induct)
  case (value_string s)
  then show ?case by (rule neutral_string)
next
  case (value_number n)
  then show ?case by (rule neutral_number)
next
  case value_true
  show ?case by (rule neutral_literal)
next
  case value_false
  show ?case by (rule neutral_literal)
next
  case value_null
  show ?case by (rule neutral_literal)
next
  case (value_empty_array w)
  then show ?case by (simp add: neutral_brackets neutral_ws)
next
  case (value_array es)
  then show ?case by (simp add: neutral_brackets)
next
  case (value_empty_object w)
  then show ?case by (simp add: neutral_braces neutral_ws)
next
  case (value_object ms)
  then show ?case by (simp add: neutral_braces)
next
  case (element w1 v w2)
  then have "neutral w1" "neutral v" "neutral w2" by (simp_all add: neutral_ws)
  then show ?case by (intro neutral_append)
next
  case (elements_one e)
  then show ?case by simp
next
  case (elements_more e es)
  then have "neutral e" "neutral es" by simp_all
  then show ?case by (intro neutral_append neutral_literal)
next
  case (member w1 k w2 e)
  from member have "neutral w1" "neutral (CHR 0x22 # k @ [CHR 0x22])" "neutral w2" "neutral e"
    by (simp_all add: neutral_ws neutral_string)
  then have "neutral (w1 @ (CHR 0x22 # k @ [CHR 0x22]) @ w2 @ '':'' @ e)"
    by (intro neutral_append neutral_literal)
  then show ?case by simp
next
  case (members_one m)
  then show ?case by simp
next
  case (members_more m ms)
  then have "neutral m" "neutral ms" by simp_all
  then show ?case by (intro neutral_append neutral_literal)
qed

lemma scan_json_object:
  assumes "json_object t"
  shows "scan (t @ post) i 0 False [] False = Some (i + length t)"
proof -
  from assms obtain body where t: "t = CHR ''{'' # body @ ''}''"
    and body: "json_ws body \<or> json_members body"
    by (auto simp: json_object_def)
  from body have nb: "neutral body" using neutral_ws neutral_json by blast
  have "scan (t @ post) i 0 False [] False = scan (body @ CHR ''}'' # post) (i + 1) 1 False [] False"
    by (simp add: t)
  also have "\<dots> = scan (CHR ''}'' # post) (i + 1 + length body) 1 False [] False"
    by (intro neutralD [OF nb]) simp
  also have "\<dots> = Some (i + 1 + length body + 1)" by simp
  finally show ?thesis by (simp add: t)
qed

section \<open>The search for the pattern\<close>

lemma strip_prefix_iff: "strip_prefix p s = Some r \<longleftrightarrow> s = p @ r"
  by (induction p s rule: strip_prefix.induct) auto

lemma strip_prefix_append: "strip_prefix p (p @ r) = Some r"
  by (simp add: strip_prefix_iff)

lemma dropWhile_spaces:
  "spaces w \<Longrightarrow> \<not> is_space c \<Longrightarrow> dropWhile is_space (w @ c # r) = c # r"
  by (induction w) (simp_all add: spaces_def)

lemma not_space_chars:
  "\<not> is_space (CHR ''='')" "\<not> is_space (CHR ''{'')" "\<not> is_space (CHR '']'')"
  "\<not> is_space (CHR 0x22)" "\<not> is_space (CHR 0x27)"
  by (simp_all add: is_space_def)

lemma not_space_quote: "is_quote q \<Longrightarrow> \<not> is_space q"
  by (auto simp: is_quote_def not_space_chars)

lemma match_tail_complete:
  "spaces w1 \<Longrightarrow> spaces w2 \<Longrightarrow>
     match_tail (w1 @ CHR ''='' # w2 @ CHR ''{'' # post) = Some (CHR ''{'' # post)"
  by (simp add: match_tail_def dropWhile_spaces not_space_chars)

lemma spaces_takeWhile: "spaces (takeWhile is_space s)"
  by (induction s) (simp_all add: spaces_def)

lemma match_tail_sound:
  assumes "match_tail s = Some r"
  shows "\<exists>w1 w2 post. spaces w1 \<and> spaces w2 \<and> s = w1 @ ''='' @ w2 @ r \<and> r = CHR ''{'' # post"
proof -
  from assms obtain r1 where r1: "dropWhile is_space s = CHR ''='' # r1"
    by (auto simp: match_tail_def split: list.splits if_splits)
  with assms obtain post where post: "dropWhile is_space r1 = CHR ''{'' # post" "r = CHR ''{'' # post"
    by (auto simp: match_tail_def split: list.splits if_splits)
  have "s = takeWhile is_space s @ dropWhile is_space s" by simp
  also have "\<dots> = takeWhile is_space s @ ''='' @ (takeWhile is_space r1 @ dropWhile is_space r1)"
    by (simp only: r1 takeWhile_dropWhile_id) simp
  finally have "s = takeWhile is_space s @ ''='' @ takeWhile is_space r1 @ r"
    by (simp add: post)
  with post(2) spaces_takeWhile show ?thesis by blast
qed

lemma match_plain_complete:
  "lhs_plain a \<Longrightarrow> match_plain (a @ CHR ''{'' # post) = Some (CHR ''{'' # post)"
proof -
  assume "lhs_plain a"
  then obtain w1 w2 where w: "spaces w1" "spaces w2" "a = ''ytInitialData'' @ w1 @ ''='' @ w2"
    by (auto simp: lhs_plain_def)
  have "a @ CHR ''{'' # post = ''ytInitialData'' @ (w1 @ ''='' @ w2 @ CHR ''{'' # post)"
    by (simp add: w(3))
  then have "strip_prefix ''ytInitialData'' (a @ CHR ''{'' # post) = Some (w1 @ ''='' @ w2 @ CHR ''{'' # post)"
    by (simp only: strip_prefix_append)
  then show ?thesis
    by (simp add: match_plain_def match_tail_complete [OF w(1,2)])
qed

lemma match_plain_sound:
  assumes "match_plain s = Some r"
  shows "\<exists>a post. lhs_plain a \<and> s = a @ r \<and> r = CHR ''{'' # post"
proof -
  from assms obtain t where t: "strip_prefix ''ytInitialData'' s = Some t" "match_tail t = Some r"
    by (auto simp: match_plain_def split: option.splits)
  from match_tail_sound [OF t(2)] obtain w1 w2 post where
    w: "spaces w1" "spaces w2" "t = w1 @ ''='' @ w2 @ r" "r = CHR ''{'' # post" by blast
  from t(1) have "s = ''ytInitialData'' @ t" by (simp only: strip_prefix_iff)
  with w(3) have "s = (''ytInitialData'' @ w1 @ ''='' @ w2) @ r" by simp
  moreover have "lhs_plain (''ytInitialData'' @ w1 @ ''='' @ w2)"
    unfolding lhs_plain_def using w(1,2) by blast
  ultimately show ?thesis using w(4) by blast
qed

lemma match_window_complete:
  "lhs_window a \<Longrightarrow> match_window (a @ CHR ''{'' # post) = Some (CHR ''{'' # post)"
proof -
  assume "lhs_window a"
  then obtain w1 q1 q2 w2 w3 w4 where w: "spaces w1" "is_quote q1" "is_quote q2" "spaces w2"
      "spaces w3" "spaces w4"
      "a = ''window['' @ w1 @ [q1] @ ''ytInitialData'' @ [q2] @ w2 @ '']'' @ w3 @ ''='' @ w4"
    by (auto simp: lhs_window_def)
  let ?t4 = "w3 @ CHR ''='' # w4 @ CHR ''{'' # post"
  let ?t3 = "w2 @ CHR '']'' # ?t4"
  let ?t2 = "q2 # ?t3"
  let ?t1 = "w1 @ q1 # (''ytInitialData'' @ ?t2)"
  have s0: "a @ CHR ''{'' # post = ''window['' @ ?t1" by (simp add: w(7))
  have s1: "strip_prefix ''window['' (a @ CHR ''{'' # post) = Some ?t1"
    by (simp only: s0 strip_prefix_append)
  have s2: "dropWhile is_space ?t1 = q1 # (''ytInitialData'' @ ?t2)"
    by (rule dropWhile_spaces [OF w(1) not_space_quote [OF w(2)]])
  have s3: "strip_prefix ''ytInitialData'' (''ytInitialData'' @ ?t2) = Some ?t2"
    by (rule strip_prefix_append)
  have s4: "dropWhile is_space ?t3 = CHR '']'' # ?t4"
    by (rule dropWhile_spaces [OF w(4) not_space_chars(3)])
  have s5: "match_tail ?t4 = Some (CHR ''{'' # post)"
    by (rule match_tail_complete [OF w(5,6)])
  show ?thesis
    unfolding match_window_def s1 by (simp only: s2 s3 s4 s5 w(2,3) option.case list.case if_True if_False not_True_eq_False simp_thms)
qed

lemma match_window_sound:
  assumes "match_window s = Some r"
  shows "\<exists>a post. lhs_window a \<and> s = a @ r \<and> r = CHR ''{'' # post"
proof -
  from assms obtain t1 where t1: "strip_prefix ''window['' s = Some t1"
    by (auto simp: match_window_def split: option.splits)
  with assms obtain q1 t2 where t2: "dropWhile is_space t1 = q1 # t2" "is_quote q1"
    by (auto simp: match_window_def split: list.splits if_splits)
  with assms t1 obtain t3 where t3: "strip_prefix ''ytInitialData'' t2 = Some t3"
    by (auto simp: match_window_def split: option.splits)
  with assms t1 t2 obtain q2 t4 where t4: "t3 = q2 # t4" "is_quote q2"
    by (auto simp: match_window_def split: list.splits if_splits)
  with assms t1 t2 t3 obtain t5 where t5: "dropWhile is_space t4 = CHR '']'' # t5" "match_tail t5 = Some r"
    by (auto simp: match_window_def split: list.splits if_splits)
  from match_tail_sound [OF t5(2)] obtain w3 w4 post where
    w: "spaces w3" "spaces w4" "t5 = w3 @ ''='' @ w4 @ r" "r = CHR ''{'' # post" by blast
  have e1: "s = ''window['' @ t1" using t1 by (simp only: strip_prefix_iff)
  have e2: "t1 = takeWhile is_space t1 @ q1 # t2"
    using takeWhile_dropWhile_id [of is_space t1] by (simp only: t2(1))
  have e3: "t2 = ''ytInitialData'' @ t3" using t3 by (simp only: strip_prefix_iff)
  have e4: "t4 = takeWhile is_space t4 @ CHR '']'' # t5"
    using takeWhile_dropWhile_id [of is_space t4] by (simp only: t5(1))
  let ?a = "''window['' @ takeWhile is_space t1 @ [q1] @ ''ytInitialData'' @ [q2] @
      takeWhile is_space t4 @ '']'' @ w3 @ ''='' @ w4"
  have "s = ''window['' @ (takeWhile is_space t1 @ q1 # (''ytInitialData'' @ (q2 #
      (takeWhile is_space t4 @ CHR '']'' # (w3 @ ''='' @ w4 @ r)))))"
    using e1 e2 e3 e4 t4(1) w(3) by metis
  then have "s = ?a @ r" by simp
  moreover have "lhs_window ?a"
    unfolding lhs_window_def using spaces_takeWhile t2(2) t4(2) w(1,2) by blast
  ultimately show ?thesis using w(4) by blast
qed

lemma match_window_plain: "lhs_plain a \<Longrightarrow> match_window (a @ t) = None"
  by (auto simp: lhs_plain_def match_window_def)

lemma match_here_complete:
  "pattern_lhs a \<Longrightarrow> match_here (a @ CHR ''{'' # post) = Some (CHR ''{'' # post)"
  unfolding pattern_lhs_def match_here_def
  by (auto simp: match_window_complete match_plain_complete match_window_plain)

lemma match_here_sound:
  assumes "match_here s = Some r"
  shows "\<exists>a post. pattern_lhs a \<and> s = a @ r \<and> r = CHR ''{'' # post"
proof (cases "match_window s")
  case None
  with assms have "match_plain s = Some r" by (simp add: match_here_def)
  from match_plain_sound [OF this] show ?thesis by (auto simp: pattern_lhs_def)
next
  case (Some r')
  with assms have "match_window s = Some r" by (simp add: match_here_def)
  from match_window_sound [OF this] show ?thesis by (auto simp: pattern_lhs_def)
qed

lemma match_here_Nil: "match_here [] = None"
  by (simp add: match_here_def match_window_def match_plain_def)

lemma match_here_length:
  "match_here s = Some r \<Longrightarrow> length r < length s"
proof -
  assume "match_here s = Some r"
  from match_here_sound [OF this] obtain a post where a: "pattern_lhs a" "s = a @ r" by blast
  from a(1) have "a \<noteq> []" by (auto simp: pattern_lhs_def lhs_window_def lhs_plain_def)
  with a(2) show ?thesis by simp
qed

lemma re_search_from_None:
  "re_search_from s i = None \<longleftrightarrow> (\<forall>k<length s. match_here (drop k s) = None)"
proof (induction s arbitrary: i)
  case Nil
  show ?case by simp
next
  case (Cons c cs)
  show ?case
  proof (cases "match_here (c # cs)")
    case (Some r)
    then have "re_search_from (c # cs) i \<noteq> None" by simp
    moreover from Some have "\<not> (\<forall>k<length (c # cs). match_here (drop k (c # cs)) = None)"
      by (auto intro!: exI [of _ 0])
    ultimately show ?thesis by blast
  next
    case None
    have "(\<forall>k<length (c # cs). match_here (drop k (c # cs)) = None) \<longleftrightarrow>
          (\<forall>k<length cs. match_here (drop k cs) = None)"
    proof
      assume h: "\<forall>k<length (c # cs). match_here (drop k (c # cs)) = None"
      show "\<forall>k<length cs. match_here (drop k cs) = None"
      proof (intro allI impI)
        fix k assume "k < length cs"
        with h have "match_here (drop (Suc k) (c # cs)) = None" by auto
        then show "match_here (drop k cs) = None" by simp
      qed
    next
      assume h: "\<forall>k<length cs. match_here (drop k cs) = None"
      show "\<forall>k<length (c # cs). match_here (drop k (c # cs)) = None"
      proof (intro allI impI)
        fix k assume k: "k < length (c # cs)"
        show "match_here (drop k (c # cs)) = None"
        proof (cases k)
          case 0 with None show ?thesis by simp
        next
          case (Suc j) with k h show ?thesis by simp
        qed
      qed
    qed
    with None Cons.IH [of "i + 1"] show ?thesis by simp
  qed
qed

lemma re_search_from_first:
  "k < length s \<Longrightarrow> match_here (drop k s) = Some r \<Longrightarrow> \<forall>j<k. match_here (drop j s) = None \<Longrightarrow>
     re_search_from s i = Some (i + (length s - length r))"
proof (induction s arbitrary: i k)
  case Nil
  then show ?case by simp
next
  case (Cons c cs)
  show ?case
  proof (cases k)
    case 0
    with Cons.prems show ?thesis by simp
  next
    case (Suc k')
    with Cons.prems have none: "match_here (c # cs) = None" by auto
    from Suc Cons.prems have k': "k' < length cs" "match_here (drop k' cs) = Some r" by simp_all
    have "\<forall>j<k'. match_here (drop j cs) = None"
    proof (intro allI impI)
      fix j assume "j < k'"
      then have "Suc j < k" using Suc by simp
      with Cons.prems(3) have "match_here (drop (Suc j) (c # cs)) = None" by blast
      then show "match_here (drop j cs) = None" by simp
    qed
    from Cons.IH [OF k' this, of "i + 1"]
    have "re_search_from cs (i + 1) = Some (i + 1 + (length cs - length r))" .
    moreover have "length r < length cs"
      using match_here_length [OF k'(2)] by (simp add: less_le_trans)
    ultimately show ?thesis using none by simp
  qed
qed

lemma pattern_at_iff:
  "pattern_at html p q \<longleftrightarrow>
     (\<exists>r. p < length html \<and> match_here (drop p html) = Some r \<and> q = length html - length r)"
proof
  assume "pattern_at html p q"
  then obtain a post where a: "pattern_lhs a" "p \<le> length html"
      "drop p html = a @ CHR ''{'' # post" "q = p + length a"
    by (auto simp: pattern_at_def)
  have m: "match_here (drop p html) = Some (CHR ''{'' # post)"
    by (simp only: a(3) match_here_complete [OF a(1)])
  have "length (drop p html) = length a + Suc (length post)" by (simp only: a(3)) simp
  then have len: "length html = p + length a + Suc (length post)" using a(2) by simp
  then have "p < length html" "q = length html - length (CHR ''{'' # post)" using a(4) by simp_all
  with m show "\<exists>r. p < length html \<and> match_here (drop p html) = Some r \<and> q = length html - length r"
    by blast
next
  assume "\<exists>r. p < length html \<and> match_here (drop p html) = Some r \<and> q = length html - length r"
  then obtain r where r: "p < length html" "match_here (drop p html) = Some r"
      "q = length html - length r" by blast
  from match_here_sound [OF r(2)] obtain a post where
    a: "pattern_lhs a" "drop p html = a @ r" "r = CHR ''{'' # post" by blast
  have "length (drop p html) = length a + length r" by (simp only: a(2)) simp
  then have "q = p + length a" using r(1,3) by simp
  with a r(1) show "pattern_at html p q" unfolding pattern_at_def by auto
qed

lemma re_search_None_iff: "re_search html = None \<longleftrightarrow> \<not> pattern_occurs html"
  unfolding re_search_def re_search_from_None pattern_occurs_def pattern_at_iff
  by auto

lemma re_search_first:
  assumes "pattern_at html p q" and "\<forall>p' q'. pattern_at html p' q' \<longrightarrow> p \<le> p'"
  shows "re_search html = Some q"
proof -
  from assms(1) obtain r where r: "p < length html" "match_here (drop p html) = Some r"
      "q = length html - length r"
    unfolding pattern_at_iff by blast
  have "\<forall>j<p. match_here (drop j html) = None"
  proof (intro allI impI)
    fix j assume j: "j < p"
    show "match_here (drop j html) = None"
    proof (rule ccontr)
      assume "match_here (drop j html) \<noteq> None"
      then obtain r' where "match_here (drop j html) = Some r'" by auto
      with j r(1) have "pattern_at html j (length html - length r')"
        unfolding pattern_at_iff by auto
      with assms(2) j show False by force
    qed
  qed
  from re_search_from_first [OF r(1,2) this, of 0] r(3) show ?thesis
    by (simp add: re_search_def)
qed

section \<open>The scan and the brace depth of a text\<close>

lemma all_pos_Suc:
  "(\<forall>k. 0 < k \<and> k \<le> Suc n \<longrightarrow> Q k) \<longleftrightarrow> (Q (Suc 0) \<and> (\<forall>j. 0 < j \<and> j \<le> n \<longrightarrow> Q (Suc j)))"
proof
  assume a: "\<forall>k. 0 < k \<and> k \<le> Suc n \<longrightarrow> Q k"
  show "Q (Suc 0) \<and> (\<forall>j. 0 < j \<and> j \<le> n \<longrightarrow> Q (Suc j))" using a by auto
next
  assume b: "Q (Suc 0) \<and> (\<forall>j. 0 < j \<and> j \<le> n \<longrightarrow> Q (Suc j))"
  show "\<forall>k. 0 < k \<and> k \<le> Suc n \<longrightarrow> Q k"
  proof (intro allI impI)
    fix k assume k: "0 < k \<and> k \<le> Suc n"
    from k obtain j where j: "k = Suc j" by (cases k) auto
    note k = k
    show "Q k"
    proof (cases j)
      case 0 with b j show ?thesis by simp
    next
      case (Suc i) with b j k show ?thesis by auto
    qed
  qed
qed

lemma balance_Nil: "balance m [] = 0"
  by (simp add: balance_def)

lemma balance_open: "balance Code (CHR ''{'' # t) = balance Code t + 1"
  by (simp add: balance_def is_quote_def)

lemma balance_close: "balance Code (CHR ''}'' # t) = balance Code t - 1"
  by (simp add: balance_def is_quote_def)

lemma stays_open_Nil: "stays_open m d []"
  by (auto simp: stays_open_def)

lemma stays_open_quote:
  "is_quote c \<Longrightarrow> stays_open Code d (c # cs) \<longleftrightarrow> d \<noteq> 0 \<and> stays_open (Literal c) d cs"
  unfolding stays_open_def length_Cons all_pos_Suc by (simp add: balance_def)

lemma stays_open_open:
  "stays_open Code d (CHR ''{'' # cs) \<longleftrightarrow> d + 1 \<noteq> 0 \<and> stays_open Code (d + 1) cs"
  unfolding stays_open_def length_Cons all_pos_Suc by (simp add: balance_open balance_Nil ac_simps)

lemma stays_open_close:
  "stays_open Code d (CHR ''}'' # cs) \<longleftrightarrow> d - 1 \<noteq> 0 \<and> stays_open Code (d - 1) cs"
  unfolding stays_open_def length_Cons all_pos_Suc by (simp add: balance_close balance_Nil algebra_simps)

lemma stays_open_plain:
  "plain c \<Longrightarrow> stays_open Code d (c # cs) \<longleftrightarrow> d \<noteq> 0 \<and> stays_open Code d cs"
  unfolding stays_open_def length_Cons all_pos_Suc by (simp add: balance_def is_quote_def plain_def)

lemma stays_open_backslash:
  "stays_open (Literal q) d (CHR 0x5C # cs) \<longleftrightarrow> d \<noteq> 0 \<and> stays_open (Escaped q) d cs"
  unfolding stays_open_def length_Cons all_pos_Suc by (simp add: balance_def)

lemma stays_open_end:
  "q \<noteq> CHR 0x5C \<Longrightarrow> stays_open (Literal q) d (q # cs) \<longleftrightarrow> d \<noteq> 0 \<and> stays_open Code d cs"
  unfolding stays_open_def length_Cons all_pos_Suc by (simp add: balance_def)

lemma stays_open_inside:
  "c \<noteq> CHR 0x5C \<Longrightarrow> c \<noteq> q \<Longrightarrow>
     stays_open (Literal q) d (c # cs) \<longleftrightarrow> d \<noteq> 0 \<and> stays_open (Literal q) d cs"
  unfolding stays_open_def length_Cons all_pos_Suc by (simp add: balance_def)

lemma stays_open_escaped:
  "stays_open (Escaped q) d (c # cs) \<longleftrightarrow> d \<noteq> 0 \<and> stays_open (Literal q) d cs"
  unfolding stays_open_def length_Cons all_pos_Suc by (simp add: balance_def)

lemma scan_None_iff:
  "0 < d \<Longrightarrow>
     (scan cs i d False sc False = None \<longleftrightarrow> stays_open Code d cs) \<and>
     (scan cs i d True [q] False = None \<longleftrightarrow> stays_open (Literal q) d cs) \<and>
     (scan cs i d True [q] True = None \<longleftrightarrow> stays_open (Escaped q) d cs)"
proof (induction cs arbitrary: i d sc q)
  case Nil
  show ?case by (simp add: stays_open_Nil)
next
  case (Cons c cs)
  note d = \<open>0 < d\<close>
  have code: "scan (c # cs) i d False sc False = None \<longleftrightarrow> stays_open Code d (c # cs)"
  proof -
    consider (quote) "is_quote c" | (opn) "c = CHR ''{''" | (cls) "c = CHR ''}''" | (pl) "plain c"
      by (auto simp: plain_def is_quote_def)
    then show ?thesis
    proof cases
      case quote
      then have "scan (c # cs) i d False sc False = scan cs (i + 1) d True [c] False"
        by (auto simp: is_quote_def)
      with Cons.IH [OF d, of "i + 1" sc c] quote d show ?thesis
        by (simp only: stays_open_quote) simp
    next
      case opn
      have "scan (c # cs) i d False sc False = scan cs (i + 1) (d + 1) False sc False"
        by (simp add: opn)
      moreover have "0 < d + 1" using d by simp
      ultimately show ?thesis using Cons.IH [of "d + 1" "i + 1" sc q] d
        by (simp only: opn stays_open_open) simp
    next
      case cls
      show ?thesis
      proof (cases "d - 1 = 0")
        case True
        then show ?thesis by (simp add: cls stays_open_close)
      next
        case False
        then have "0 < d - 1" using d by simp
        from Cons.IH [OF this, of "i + 1" sc q] False show ?thesis
          by (simp add: cls stays_open_close)
      qed
    next
      case pl
      then have "scan (c # cs) i d False sc False = scan cs (i + 1) d False sc False"
        by (auto simp: plain_def)
      with Cons.IH [OF d, of "i + 1" sc q] pl d show ?thesis
        by (simp only: stays_open_plain) simp
    qed
  qed
  have lit: "scan (c # cs) i d True [q] False = None \<longleftrightarrow> stays_open (Literal q) d (c # cs)"
  proof -
    consider (bs) "c = CHR 0x5C" | (fin) "c \<noteq> CHR 0x5C" "c = q" | (ins) "c \<noteq> CHR 0x5C" "c \<noteq> q"
      by blast
    then show ?thesis
    proof cases
      case bs
      with Cons.IH [OF d, of "i + 1" sc q] d show ?thesis
        by (simp add: stays_open_backslash)
    next
      case fin
      with Cons.IH [OF d, of "i + 1" "[q]" q] d show ?thesis
        by (simp add: stays_open_end)
    next
      case ins
      with Cons.IH [OF d, of "i + 1" sc q] d show ?thesis
        by (simp add: stays_open_inside)
    qed
  qed
  have esc: "scan (c # cs) i d True [q] True = None \<longleftrightarrow> stays_open (Escaped q) d (c # cs)"
    using Cons.IH [OF d, of "i + 1" sc q] d by (simp add: stays_open_escaped)
  from code lit esc show ?case by blast
qed

lemma never_closed_stays_open: "never_closed t \<longleftrightarrow> stays_open Code 0 t"
  by (simp add: never_closed_def stays_open_def depth_def)

lemma scan_never_closed:
  "scan (CHR ''{'' # cs) i 0 False [] False = None \<longleftrightarrow> never_closed (CHR ''{'' # cs)"
proof -
  have "scan (CHR ''{'' # cs) i 0 False [] False = scan cs (i + 1) 1 False [] False" by simp
  moreover have "scan cs (i + 1) 1 False [] False = None \<longleftrightarrow> stays_open Code 1 cs"
    using scan_None_iff [of 1 cs "i + 1" "[]"] by simp
  moreover have "never_closed (CHR ''{'' # cs) \<longleftrightarrow> stays_open Code 1 cs"
    by (simp add: never_closed_stays_open stays_open_open)
  ultimately show ?thesis by simp
qed

lemma pattern_at_brace:
  assumes "pattern_at html p q"
  shows "\<exists>post. drop q html = CHR ''{'' # post"
proof -
  from assms obtain a post where a: "drop p html = a @ CHR ''{'' # post" "q = p + length a"
    by (auto simp: pattern_at_def)
  have "drop q html = drop (length a) (drop p html)" by (simp add: a(2) add.commute)
  also have "\<dots> = CHR ''{'' # post" by (simp add: a(1))
  finally show ?thesis by blast
qed

lemma scan_step:
  "(\<forall>cs. scan (c # cs) i d s sc e = Some (Suc i)) \<or>
   (\<exists>d' s' sc' e'. \<forall>cs. scan (c # cs) i d s sc e = scan cs (Suc i) d' s' sc' e')"
proof (cases s)
  case True
  then show ?thesis by (cases e) (simp_all, blast+)
next
  case False
  consider (quote) "c = CHR 0x22 \<or> c = CHR 0x27" | (opn) "c = CHR ''{''"
    | (cls) "c = CHR ''}''" | (pl) "plain c"
    by (auto simp: plain_def)
  then show ?thesis
  proof cases
    case quote
    then have "\<forall>cs. scan (c # cs) i d s sc e = scan cs (Suc i) d True [c] e"
      using False by simp
    then show ?thesis by blast
  next
    case opn
    then have "\<forall>cs. scan (c # cs) i d s sc e = scan cs (Suc i) (d + 1) s sc e"
      using False by simp
    then show ?thesis by blast
  next
    case cls
    show ?thesis
    proof (cases "d - 1 = 0")
      case True
      then have "\<forall>cs. scan (c # cs) i d s sc e = Some (Suc i)" using False cls by simp
      then show ?thesis by blast
    next
      case nz: False
      then have "\<forall>cs. scan (c # cs) i d s sc e = scan cs (Suc i) (d - 1) s sc e"
        using False cls by simp
      then show ?thesis by blast
    qed
  next
    case pl
    then have "\<forall>cs. scan (c # cs) i d s sc e = scan cs (Suc i) d s sc e"
      using False by (simp add: plain_def)
    then show ?thesis by blast
  qed
qed

lemma scan_append_Some:
  "scan xs i d s sc e = Some r \<Longrightarrow> scan (xs @ ys) i d s sc e = Some r"
proof (induction xs arbitrary: i d s sc e)
  case Nil
  then show ?case by simp
next
  case (Cons c cs)
  from scan_step [of c i d s sc e] show ?case
  proof (elim disjE exE)
    assume a: "\<forall>cs. scan (c # cs) i d s sc e = Some (Suc i)"
    then have "scan (c # cs) i d s sc e = Some (Suc i)"
      and "scan (c # (cs @ ys)) i d s sc e = Some (Suc i)" by blast+
    with Cons.prems show ?thesis by simp
  next
    fix d' s' sc' e'
    assume a: "\<forall>cs. scan (c # cs) i d s sc e = scan cs (Suc i) d' s' sc' e'"
    then have 1: "scan (c # cs) i d s sc e = scan cs (Suc i) d' s' sc' e'"
      and 2: "scan (c # (cs @ ys)) i d s sc e = scan (cs @ ys) (Suc i) d' s' sc' e'" by blast+
    from Cons.prems 1 have "scan cs (Suc i) d' s' sc' e' = Some r" by simp
    from Cons.IH [OF this] 2 show ?thesis by simp
  qed
qed

lemma scan_Some_le:
  "scan xs i d s sc e = Some r \<Longrightarrow> r \<le> i + length xs"
proof (induction xs arbitrary: i d s sc e)
  case Nil
  then show ?case by simp
next
  case (Cons c cs)
  from scan_step [of c i d s sc e] show ?case
  proof (elim disjE exE)
    assume a: "\<forall>cs. scan (c # cs) i d s sc e = Some (Suc i)"
    then have "scan (c # cs) i d s sc e = Some (Suc i)" by blast
    with Cons.prems show ?thesis by simp
  next
    fix d' s' sc' e'
    assume a: "\<forall>cs. scan (c # cs) i d s sc e = scan cs (Suc i) d' s' sc' e'"
    then have 1: "scan (c # cs) i d s sc e = scan cs (Suc i) d' s' sc' e'" by blast
    from Cons.prems 1 have "scan cs (Suc i) d' s' sc' e' = Some r" by simp
    from Cons.IH [OF this] show ?thesis by simp
  qed
qed

lemma scan_truncated:
  assumes "json_object (t @ rest)" and "rest \<noteq> []"
  shows "scan t i 0 False [] False = None"
proof (rule ccontr)
  assume "scan t i 0 False [] False \<noteq> None"
  then obtain r where r: "scan t i 0 False [] False = Some r" by auto
  from scan_append_Some [OF r, of rest] have "scan (t @ rest) i 0 False [] False = Some r" .
  moreover from scan_json_object [OF assms(1), of "[]" i]
  have "scan (t @ rest) i 0 False [] False = Some (i + length (t @ rest))" by simp
  ultimately have "r = i + length t + length rest" by simp
  moreover from scan_Some_le [OF r] have "r \<le> i + length t" .
  ultimately show False using assms(2) by simp
qed

lemma extract_never_closed:
  assumes "pattern_at html p q" and "\<forall>p' q'. pattern_at html p' q' \<longrightarrow> p \<le> p'"
    and "never_closed (drop q html)"
  shows "extract_yt_initial_data loads html = loads []"
proof -
  from re_search_first [OF assms(1,2)] have start: "re_search html = Some q" .
  from pattern_at_brace [OF assms(1)] obtain post where post: "drop q html = CHR ''{'' # post"
    by blast
  from assms(3) have "scan (drop q html) q 0 False [] False = None"
    by (simp only: post scan_never_closed)
  with start show ?thesis
    by (simp add: extract_yt_initial_data_def slice_def)
qed

lemma extract_truncated:
  assumes "html = pre @ a @ t" and "pattern_lhs a" and "t \<noteq> []" and "rest \<noteq> []"
    and "json_object (t @ rest)"
    and "\<forall>p q. pattern_at html p q \<longrightarrow> length pre \<le> p"
  shows "extract_yt_initial_data loads html = loads []"
proof -
  from assms(5) obtain body where "t @ rest = CHR ''{'' # body @ ''}''"
    by (auto simp: json_object_def)
  with assms(3) obtain t' where t: "t = CHR ''{'' # t'" by (cases t) auto
  have "pattern_at html (length pre) (length pre + length a)"
    unfolding pattern_at_def using assms(2) by (auto simp: assms(1) t)
  from re_search_first [OF this assms(6)]
  have start: "re_search html = Some (length pre + length a)" .
  have "drop (length pre + length a) html = t" by (simp add: assms(1))
  moreover have "scan t (length pre + length a) 0 False [] False = None"
    by (rule scan_truncated [OF assms(5,4)])
  ultimately show ?thesis using start
    by (simp add: extract_yt_initial_data_def slice_def)
qed

lemma never_closed_code:
  "never_closed t \<longleftrightarrow> list_all (\<lambda>k. depth (take k t) \<noteq> 0) [1..<Suc (length t)]"
proof
  assume a: "never_closed t"
  show "list_all (\<lambda>k. depth (take k t) \<noteq> 0) [1..<Suc (length t)]"
    unfolding list_all_iff
  proof
    fix k assume "k \<in> set [1..<Suc (length t)]"
    then have "0 < k \<and> k \<le> length t" by auto
    with a show "depth (take k t) \<noteq> 0" unfolding never_closed_def by blast
  qed
next
  assume b: "list_all (\<lambda>k. depth (take k t) \<noteq> 0) [1..<Suc (length t)]"
  show "never_closed t"
    unfolding never_closed_def
  proof (intro allI impI)
    fix k assume "0 < k \<and> k \<le> length t"
    then have "k \<in> set [1..<Suc (length t)]" by auto
    with b show "depth (take k t) \<noteq> 0" unfolding list_all_iff by blast
  qed
qed

lemma no_assignment:
  assumes "list_all (\<lambda>p. match_here (drop p html) = None \<or> (p \<noteq> 0 \<and> ident_char (html ! (p - 1))))
     [0..<length html]"
  shows "\<not> has_assignment html"
proof
  assume "has_assignment html"
  then obtain p q where pq: "pattern_at html p q" "p = 0 \<or> \<not> ident_char (html ! (p - 1))"
    by (auto simp: has_assignment_def assignment_at_def)
  from pq(1) obtain r where r: "p < length html" "match_here (drop p html) = Some r"
    unfolding pattern_at_iff by blast
  from r(1) have "p \<in> set [0..<length html]" by simp
  with assms have "match_here (drop p html) = None \<or> (p \<noteq> 0 \<and> ident_char (html ! (p - 1)))"
    by (simp add: list_all_iff)
  with r(2) pq(2) show False by auto
qed

section \<open>Extraction of the ytInitialData object\<close>

text \<open>
  Claim C1, as amended. Let a document be \<open>pre @ a @ obj @ post\<close>, where \<open>a\<close> is a text of
  the pattern up to the brace (\<^verbatim>\<open>window['ytInitialData'] =\<close> with single or double
  quotes, or \<^verbatim>\<open>ytInitialData =\<close>), \<open>obj\<close> is a valid JSON object text, and the pattern
  occurs nowhere in the document before \<open>a\<close>: it is the first occurrence of the pattern
  that is followed by the object. Then \<open>extract_yt_initial_data\<close> decodes exactly \<open>obj\<close>:
  its result is \<open>json.loads(obj)\<close>. The strings of \<open>obj\<close> may hold semicolons, braces,
  single quotes and escaped double quotes; the grammar \<open>json_chars\<close> allows them all.
\<close>

theorem extract_returns_intended_object:
  assumes "html = pre @ a @ obj @ post"
    and "pattern_lhs a"
    and "json_object obj"
    and "\<forall>p q. pattern_at html p q \<longrightarrow> length pre \<le> p"
  shows "extract_yt_initial_data loads html = loads obj"
proof -
  from assms(3) obtain body where obj: "obj = CHR ''{'' # body @ ''}''"
    by (auto simp: json_object_def)
  have d: "drop (length pre) html = a @ CHR ''{'' # (body @ ''}'' @ post)"
    by (simp add: assms(1) obj)
  have "pattern_at html (length pre) (length pre + length a)"
    unfolding pattern_at_def using assms(2) d by (auto simp: assms(1))
  from re_search_first [OF this assms(4)]
  have start: "re_search html = Some (length pre + length a)" .
  have rest: "drop (length pre + length a) html = obj @ post"
    by (simp add: assms(1))
  have sc: "scan (obj @ post) (length pre + length a) 0 False [] False =
      Some (length pre + length a + length obj)"
    by (rule scan_json_object [OF assms(3)])
  have "slice html (length pre + length a) (length pre + length a + length obj) = obj"
    by (simp add: slice_def rest)
  then show ?thesis
    by (simp add: extract_yt_initial_data_def start rest sc)
qed

lemma first_pattern:
  assumes "list_all (\<lambda>j. match_here (drop j html) = None) [0..<k]"
  shows "\<forall>p q. pattern_at html p q \<longrightarrow> k \<le> p"
proof (intro allI impI)
  fix p q assume "pattern_at html p q"
  then obtain r where r: "match_here (drop p html) = Some r"
    unfolding pattern_at_iff by blast
  show "k \<le> p"
  proof (rule ccontr)
    assume "\<not> k \<le> p"
    then have "p \<in> set [0..<k]" by simp
    with assms have "match_here (drop p html) = None" by (simp add: list_all_iff)
    with r show False by simp
  qed
qed

lemma json_object_tricky: "json_object object_tricky"
proof -
  have k: "json_chars ''k''"
    by (intro json_chars.chars_plain json_chars.chars_end) simp_all
  have "json_chars [CHR ''{'', CHR 0x27]"
    by (intro json_chars.chars_plain json_chars.chars_end) simp_all
  then have "json_chars [CHR 0x5C, CHR 0x22, CHR ''{'', CHR 0x27]"
    by (rule json_chars.chars_escape) (simp add: is_escape_def)
  then have "json_chars [CHR ''}'', CHR 0x5C, CHR 0x22, CHR ''{'', CHR 0x27]"
    by (rule json_chars.chars_plain) simp_all
  then have "json_chars [CHR '';'', CHR ''}'', CHR 0x5C, CHR 0x22, CHR ''{'', CHR 0x27]"
    by (rule json_chars.chars_plain) simp_all
  then have "json_chars [CHR ''a'', CHR '';'', CHR ''}'', CHR 0x5C, CHR 0x22, CHR ''{'', CHR 0x27]"
    by (rule json_chars.chars_plain) simp_all
  then have "json_value (CHR 0x22 # [CHR ''a'', CHR '';'', CHR ''}'', CHR 0x5C, CHR 0x22, CHR ''{'', CHR 0x27] @ [CHR 0x22])"
    by (rule value_string)
  then have "json_element ('' '' @ (CHR 0x22 # [CHR ''a'', CHR '';'', CHR ''}'', CHR 0x5C, CHR 0x22, CHR ''{'', CHR 0x27] @ [CHR 0x22]) @ [])"
    by (intro element) (simp_all add: json_ws_def)
  with k have "json_member ([] @ CHR 0x22 # ''k'' @ CHR 0x22 # [] @ '':'' @
      ('' '' @ (CHR 0x22 # [CHR ''a'', CHR '';'', CHR ''}'', CHR 0x5C, CHR 0x22, CHR ''{'', CHR 0x27] @ [CHR 0x22]) @ []))"
    by (intro member) (simp_all add: json_ws_def)
  then have "json_members ([] @ CHR 0x22 # ''k'' @ CHR 0x22 # [] @ '':'' @
      ('' '' @ (CHR 0x22 # [CHR ''a'', CHR '';'', CHR ''}'', CHR 0x5C, CHR 0x22, CHR ''{'', CHR 0x27] @ [CHR 0x22]) @ []))"
    by (rule members_one)
  then show ?thesis
    unfolding json_object_def object_tricky_def
    by (intro exI [of _ "[] @ CHR 0x22 # ''k'' @ CHR 0x22 # [] @ '':'' @
      ('' '' @ (CHR 0x22 # [CHR ''a'', CHR '';'', CHR ''}'', CHR 0x5C, CHR 0x22, CHR ''{'', CHR 0x27] @ [CHR 0x22]) @ [])"])
       simp
qed

lemma lhs_window_example: \<open>pattern_lhs ''window["ytInitialData"] = ''\<close>
  unfolding pattern_lhs_def lhs_window_def
  by (intro disjI1 exI [of _ "[]"] exI [of _ "CHR 0x22"] exI [of _ "'' ''"])
     (simp add: spaces_def is_quote_def is_space_def)

theorem extract_returns_intended_object_witness:
  \<open>extract_yt_initial_data loads_pages page_tricky =
     Inr (JObj [(''k'', JStr [CHR ''a'', CHR '';'', CHR ''}'', CHR 0x22, CHR ''{'', CHR 0x27])])\<close>
proof -
  have page: \<open>page_tricky = ''<script>'' @ ''window["ytInitialData"] = '' @ object_tricky @ '';</script>''\<close>
    by (simp add: page_tricky_def)
  have "list_all (\<lambda>j. match_here (drop j page_tricky) = None) [0..<length ''<script>'']"
    by code_simp
  then have first: "\<forall>p q. pattern_at page_tricky p q \<longrightarrow> length ''<script>'' \<le> p"
    by (rule first_pattern)
  have "extract_yt_initial_data loads_pages page_tricky = loads_pages object_tricky"
    by (rule extract_returns_intended_object [OF page lhs_window_example json_object_tricky first])
  also have "\<dots> = Inr (JObj [(''k'', JStr [CHR ''a'', CHR '';'', CHR ''}'', CHR 0x22, CHR ''{'', CHR 0x27])])"
    by code_simp
  finally show ?thesis .
qed

lemma json_number_digit: "is_digit c \<Longrightarrow> c \<noteq> CHR ''0'' \<Longrightarrow> json_number [c]"
proof -
  assume c: "is_digit c" "c \<noteq> CHR ''0''"
  have "json_int [c]" using c by (simp add: json_int_def digits_def)
  moreover have "json_frac []" by (simp add: json_frac_def)
  moreover have "json_exp []" by (simp add: json_exp_def)
  ultimately have "[c] = [] @ [c] @ [] @ [] \<and> ([] = [] \<or> [] = ''-'') \<and> json_int [c] \<and>
      json_frac [] \<and> json_exp []" by simp
  then show ?thesis unfolding json_number_def by blast
qed

lemma json_object_key_digit:
  assumes "json_chars k" and "is_digit c" and "c \<noteq> CHR ''0''"
  shows "json_object (CHR ''{'' # CHR 0x22 # k @ CHR 0x22 # '': '' @ [c] @ ''}'')"
proof -
  have "json_value [c]" by (rule value_number) (rule json_number_digit [OF assms(2,3)])
  then have "json_element ('' '' @ [c] @ [])"
    by (intro element) (simp_all add: json_ws_def)
  with assms(1) have "json_member ([] @ CHR 0x22 # k @ CHR 0x22 # [] @ '':'' @ ('' '' @ [c] @ []))"
    by (intro member) (simp_all add: json_ws_def)
  then have "json_members ([] @ CHR 0x22 # k @ CHR 0x22 # [] @ '':'' @ ('' '' @ [c] @ []))"
    by (rule members_one)
  then show ?thesis
    unfolding json_object_def
    by (intro exI [of _ "[] @ CHR 0x22 # k @ CHR 0x22 # [] @ '':'' @ ('' '' @ [c] @ [])"]) simp
qed

lemma json_object_b: \<open>json_object ''{"b": 2}''\<close>
proof -
  have "json_chars ''b''"
    by (intro json_chars.chars_plain json_chars.chars_end) simp_all
  from json_object_key_digit [OF this, of "CHR ''2''"] show ?thesis
    by (simp add: is_digit_def)
qed

lemma lhs_plain_example: "pattern_lhs ''ytInitialData = ''"
  unfolding pattern_lhs_def lhs_plain_def
  by (intro disjI2 exI [of _ "'' ''"]) (simp add: spaces_def is_space_def)

text \<open>
  Without the condition on the first occurrence the statement does not hold. Both pages
  below contain the assignment \<^verbatim>\<open>ytInitialData = {"b": 2}\<close>, whose object is valid JSON,
  and the pattern occurs before it. In \<open>page_comment_first\<close> the earlier occurrence stands
  in a comment: the scan that starts at the brace of the comment reaches the end of the
  document at depth 1, and \<open>json.loads\<close> fails on the empty text. In
  \<open>page_two_variables\<close> the earlier occurrence is the tail of the name \<open>xytInitialData\<close>,
  and the object of that variable is returned.
\<close>

theorem extract_takes_first_occurrence:
  \<open>page_comment_first =
     ''<script>/* ytInitialData = { */ var '' @ ''ytInitialData = '' @ ''{"b": 2}'' @ '';</script>'' \<and>
   page_two_variables =
     ''<script>var xytInitialData = {"a": 1}; var '' @ ''ytInitialData = '' @ ''{"b": 2}'' @ '';</script>'' \<and>
   pattern_lhs ''ytInitialData = '' \<and>
   json_object ''{"b": 2}'' \<and>
   loads_objects ''{"b": 2}'' = Inr (JObj [(''b'', JInt 2)]) \<and>
   extract_yt_initial_data loads_objects page_comment_first = Inl JSONDecodeError \<and>
   extract_yt_initial_data loads_objects page_two_variables = Inr (JObj [(''a'', JInt 1)])\<close>
proof (intro conjI)
  show \<open>page_comment_first =
     ''<script>/* ytInitialData = { */ var '' @ ''ytInitialData = '' @ ''{"b": 2}'' @ '';</script>''\<close>
    by (simp add: page_comment_first_def)
  show \<open>page_two_variables =
     ''<script>var xytInitialData = {"a": 1}; var '' @ ''ytInitialData = '' @ ''{"b": 2}'' @ '';</script>''\<close>
    by (simp add: page_two_variables_def)
  show "pattern_lhs ''ytInitialData = ''" by (rule lhs_plain_example)
  show \<open>json_object ''{"b": 2}''\<close> by (rule json_object_b)
  show \<open>loads_objects ''{"b": 2}'' = Inr (JObj [(''b'', JInt 2)])\<close> by code_simp
  show "extract_yt_initial_data loads_objects page_comment_first = Inl JSONDecodeError"
    by code_simp
  show "extract_yt_initial_data loads_objects page_two_variables = Inr (JObj [(''a'', JInt 1)])"
    by code_simp
qed

text \<open>
  Claim C5, as amended. On a document in which the pattern does not occur, extraction
  fails with the not-found error, the ValueError \<open>ytInitialData not found in HTML\<close>. On a
  document in which the pattern occurs, first at index \<open>p\<close> with its brace at index \<open>q\<close>,
  and the text from the brace to the end of the document is never closed (after none of
  its characters are the closing braces outside string literals as many as the opening
  ones), the text handed to \<open>json.loads\<close> is empty; \<open>json.loads\<close> rejects the empty text
  with JSONDecodeError, and that error leaves the function: no truncated value is
  returned. This is so in particular on a document that ends inside the object: the
  text \<open>t\<close> after the first occurrence of the pattern is not empty and a JSON object text
  \<open>t @ rest\<close> goes on after the end of the document.
\<close>

theorem extract_fails_without_object:
  "(\<not> pattern_occurs html \<longrightarrow>
      extract_yt_initial_data loads html = Inl (ValueError ''ytInitialData not found in HTML'')) \<and>
   (pattern_at html p q \<and> (\<forall>p' q'. pattern_at html p' q' \<longrightarrow> p \<le> p') \<and>
      never_closed (drop q html) \<and> loads [] = Inl JSONDecodeError \<longrightarrow>
      extract_yt_initial_data loads html = Inl JSONDecodeError) \<and>
   (html = pre @ a @ t \<and> pattern_lhs a \<and> (\<forall>p' q'. pattern_at html p' q' \<longrightarrow> length pre \<le> p') \<and>
      t \<noteq> [] \<and> rest \<noteq> [] \<and> json_object (t @ rest) \<and> loads [] = Inl JSONDecodeError \<longrightarrow>
      extract_yt_initial_data loads html = Inl JSONDecodeError)"
proof (intro conjI impI)
  assume "\<not> pattern_occurs html"
  then have "re_search html = None" by (simp add: re_search_None_iff)
  then show "extract_yt_initial_data loads html = Inl (ValueError ''ytInitialData not found in HTML'')"
    by (simp add: extract_yt_initial_data_def)
next
  assume h: "pattern_at html p q \<and> (\<forall>p' q'. pattern_at html p' q' \<longrightarrow> p \<le> p') \<and>
      never_closed (drop q html) \<and> loads [] = Inl JSONDecodeError"
  then have "extract_yt_initial_data loads html = loads []"
    by (intro extract_never_closed [of html p q]) blast+
  with h show "extract_yt_initial_data loads html = Inl JSONDecodeError" by simp
next
  assume h: "html = pre @ a @ t \<and> pattern_lhs a \<and>
      (\<forall>p' q'. pattern_at html p' q' \<longrightarrow> length pre \<le> p') \<and>
      t \<noteq> [] \<and> rest \<noteq> [] \<and> json_object (t @ rest) \<and> loads [] = Inl JSONDecodeError"
  then have "extract_yt_initial_data loads html = loads []"
    by (intro extract_truncated [of html pre a t rest]) blast+
  with h show "extract_yt_initial_data loads html = Inl JSONDecodeError" by simp
qed

theorem extract_fails_without_object_witness:
  "extract_yt_initial_data loads_pages page_no_data =
     Inl (ValueError ''ytInitialData not found in HTML'') \<and>
   pattern_at page_unclosed 12 28 \<and>
   never_closed (drop 28 page_unclosed) \<and>
   extract_yt_initial_data loads_pages page_unclosed = Inl JSONDecodeError \<and>
   extract_yt_initial_data loads_objects page_cut = Inl JSONDecodeError"
proof -
  have "re_search page_no_data = None" by code_simp
  then have no: "\<not> pattern_occurs page_no_data" by (simp add: re_search_None_iff)
  from extract_fails_without_object [where html = page_no_data and loads = loads_pages] no
  have a: "extract_yt_initial_data loads_pages page_no_data =
     Inl (ValueError ''ytInitialData not found in HTML'')" by blast
  have m: "match_here (drop 12 page_unclosed) = Some (drop 28 page_unclosed)" by code_simp
  have "12 < length page_unclosed" "28 = length page_unclosed - length (drop 28 page_unclosed)"
    by (simp_all add: page_unclosed_def)
  with m have at: "pattern_at page_unclosed 12 28" unfolding pattern_at_iff by blast
  have "list_all (\<lambda>j. match_here (drop j page_unclosed) = None) [0..<12]" by code_simp
  then have first: "\<forall>p' q'. pattern_at page_unclosed p' q' \<longrightarrow> 12 \<le> p'"
    by (rule first_pattern)
  have "list_all (\<lambda>k. depth (take k (drop 28 page_unclosed)) \<noteq> 0)
      [1..<Suc (length (drop 28 page_unclosed))]" by code_simp
  then have nc: "never_closed (drop 28 page_unclosed)" by (simp only: never_closed_code)
  have empty: "loads_pages [] = Inl JSONDecodeError" by (simp add: loads_pages_def)
  from extract_fails_without_object [where html = page_unclosed and loads = loads_pages
      and p = 12 and q = 28] at first nc empty
  have b: "extract_yt_initial_data loads_pages page_unclosed = Inl JSONDecodeError" by blast
  have page: \<open>page_cut = ''<script>var '' @ ''ytInitialData = '' @ ''{"b": ''\<close>
    by (simp add: page_cut_def)
  have "list_all (\<lambda>j. match_here (drop j page_cut) = None) [0..<length ''<script>var '']"
    by code_simp
  then have first_cut: "\<forall>p' q'. pattern_at page_cut p' q' \<longrightarrow> length ''<script>var '' \<le> p'"
    by (rule first_pattern)
  have obj: \<open>json_object (''{"b": '' @ ''2}'')\<close> using json_object_b by simp
  have empty_o: "loads_objects [] = Inl JSONDecodeError" by (simp add: loads_objects_def)
  from extract_fails_without_object [where html = page_cut and loads = loads_objects
      and pre = "''<script>var ''" and a = "''ytInitialData = ''" and t = \<open>''{"b": ''\<close>
      and rest = "''2}''"] page lhs_plain_example first_cut obj empty_o
  have c: "extract_yt_initial_data loads_objects page_cut = Inl JSONDecodeError" by simp
  from a at nc b c show ?thesis by blast
qed

text \<open>
  The claim for every document with no assignment of the variable does not hold: in
  \<open>page_other_variable\<close> no occurrence of the pattern begins with a whole name, the only
  one is the tail of the name \<open>xytInitialData\<close>, and the extraction returns the object of
  that variable.
\<close>

theorem extract_finds_other_variable:
  "\<not> has_assignment page_other_variable \<and>
   extract_yt_initial_data loads_objects page_other_variable = Inr (JObj [(''a'', JInt 1)])"
proof
  have "list_all (\<lambda>p. match_here (drop p page_other_variable) = None \<or>
      (p \<noteq> 0 \<and> ident_char (page_other_variable ! (p - 1)))) [0..<length page_other_variable]"
    by code_simp
  then show "\<not> has_assignment page_other_variable" by (rule no_assignment)
  show "extract_yt_initial_data loads_objects page_other_variable = Inr (JObj [(''a'', JInt 1)])"
    by code_simp
qed

section \<open>The channel identifier\<close>

lemma get_channel_id_from_html_found:
  assumes "extract_yt_initial_data loads html = Inr data"
    and "getitem data ''metadata'' = Inr m"
    and "getitem m ''channelMetadataRenderer'' = Inr c"
    and "getitem c ''externalId'' = Inr v"
  shows "get_channel_id_from_html loads html = Inr v"
  using assms by (simp add: get_channel_id_from_html_def)

lemma get_channel_id_from_html_missing_key:
  assumes "extract_yt_initial_data loads html = Inr (JObj items)"
    and "map_of items ''metadata'' = None"
  shows "get_channel_id_from_html loads html =
    Inl (ValueError ''Channel ID not found in initial data.'')"
  using assms by (simp add: get_channel_id_from_html_def getitem_def)

lemma get_channel_id_from_html_not_a_dict:
  assumes "extract_yt_initial_data loads html = Inr data"
    and "getitem data ''metadata'' = Inr m"
    and "\<forall>items. m \<noteq> JObj items"
  shows "get_channel_id_from_html loads html = Inl TypeError"
  using assms by (cases m) (simp_all add: get_channel_id_from_html_def getitem_def)

text \<open>
  Claim C6. The channel resolver returns the value at the path \<open>metadata\<close>,
  \<open>channelMetadataRenderer\<close>, \<open>externalId\<close> of the extracted object, and when a segment
  of the path is absent it fails with the not-found error (the ValueError
  \<open>Channel ID not found in initial data.\<close>) and with no other kind of error. The code
  turns only KeyError into that error: on the page \<open>page_metadata_null\<close>, where the
  value of \<open>metadata\<close> is \<open>null\<close> and the segment \<open>channelMetadataRenderer\<close> is therefore
  absent, the TypeError of the subscript leaves the function.
\<close>

theorem get_channel_id_from_html_type_error:
  "get_channel_id_from_html loads_pages page_metadata_null = Inl TypeError"
  by code_simp

section \<open>The memoised accessor of Channel\<close>

lemma channel_id_url_kept:
  "channel_url (fst (snd (channel_id net loads c rs))) = channel_url c"
  by (simp add: channel_id_def split: prod.splits sum.splits)

lemma channel_id_failed:
  "channel_id net loads c rs = (Inl e, c', rs') \<Longrightarrow> c' = c"
  by (auto simp: channel_id_def split: prod.splits sum.splits if_splits)

lemma get_channel_id_requests:
  "snd (get_channel_id net loads url rs) = rs @ [url]"
  by (simp add: get_channel_id_def requests_get_def split: sum.splits)

lemma channel_id_first:
  "private_channel_id c = JNull \<Longrightarrow> channel_id net loads c rs = (Inr v, c', rs') \<Longrightarrow>
     c' = c\<lparr>private_channel_id := v\<rparr> \<and> rs' = rs @ [channel_url c]"
  using get_channel_id_requests [of net loads "channel_url c" rs]
  by (auto simp: channel_id_def split: prod.splits sum.splits)

lemma channel_id_cached:
  "private_channel_id c = v \<Longrightarrow> v \<noteq> JNull \<Longrightarrow> channel_id net loads c rs = (Inr v, c, rs)"
  by (simp add: channel_id_def)

text \<open>
  What the accessor does when the resolved value is a string, or any value other than
  \<open>None\<close>. No access changes the stored URL. An access that raises leaves an unresolved
  object as it was. The first access of an unresolved object that returns such a value
  makes exactly one request, to the stored URL, and stores the value; from then on
  every access, whatever the network answers, returns the stored value, makes no
  request and leaves the object as it is.
\<close>

lemma channel_id_resolved_once:
  "channel_url (fst (snd (channel_id net loads c rs))) = channel_url c \<and>
   (private_channel_id c = JNull \<and> channel_id net loads c rs = (Inl e, c', rs') \<longrightarrow> c' = c) \<and>
   (private_channel_id c = JNull \<and> channel_id net loads c rs = (Inr v, c', rs') \<and> v \<noteq> JNull \<longrightarrow>
      c' = c\<lparr>private_channel_id := v\<rparr> \<and> rs' = rs @ [channel_url c] \<and>
      (\<forall>net2 loads2 rs2. channel_id net2 loads2 c' rs2 = (Inr v, c', rs2)))"
proof (intro conjI impI)
  show "channel_url (fst (snd (channel_id net loads c rs))) = channel_url c"
    by (rule channel_id_url_kept)
next
  assume "private_channel_id c = JNull \<and> channel_id net loads c rs = (Inl e, c', rs')"
  then show "c' = c" using channel_id_failed by blast
next
  assume h: "private_channel_id c = JNull \<and> channel_id net loads c rs = (Inr v, c', rs') \<and> v \<noteq> JNull"
  then have c': "c' = c\<lparr>private_channel_id := v\<rparr>" and rs': "rs' = rs @ [channel_url c]"
    using channel_id_first [of c net loads rs v c' rs'] by auto
  show "c' = c\<lparr>private_channel_id := v\<rparr>" by (rule c')
  show "rs' = rs @ [channel_url c]" by (rule rs')
  show "\<forall>net2 loads2 rs2. channel_id net2 loads2 c' rs2 = (Inr v, c', rs2)"
    using h c' by (simp add: channel_id_cached)
qed

lemma first_access_str:
  "channel_id (serve page_id_str) loads_pages (Channel_init ''u'') [] =
     (Inr (JStr ''UC3k3''), \<lparr>channel_url = ''u'', private_channel_id = JStr ''UC3k3''\<rparr>, [''u''])"
  by code_simp

lemma channel_id_resolved_once_example:
  "channel_id (serve page_id_str) loads_pages (Channel_init ''u'') [] =
     (Inr (JStr ''UC3k3''), \<lparr>channel_url = ''u'', private_channel_id = JStr ''UC3k3''\<rparr>, [''u'']) \<and>
   channel_id (serve page_id_null) loads_pages
       \<lparr>channel_url = ''u'', private_channel_id = JStr ''UC3k3''\<rparr> [''u''] =
     (Inr (JStr ''UC3k3''), \<lparr>channel_url = ''u'', private_channel_id = JStr ''UC3k3''\<rparr>, [''u''])"
  using channel_id_resolved_once [where net = "serve page_id_str" and loads = loads_pages
      and c = "Channel_init ''u''" and rs = "[]" and v = "JStr ''UC3k3''"
      and c' = "\<lparr>channel_url = ''u'', private_channel_id = JStr ''UC3k3''\<rparr>"
      and rs' = "[''u'']"]
    first_access_str
  by (simp add: Channel_init_def)

text \<open>
  Claim C9. The accessor of the channel identifier computes once: the object is
  unresolved until the first successful access, which makes exactly one fetch and
  stores the result, and every later access returns the stored value without another
  fetch. The code does not meet this on the page \<open>page_id_null\<close>, whose \<open>externalId\<close> is
  \<open>null\<close>. \<open>get_channel_id\<close>, declared to return a str and to raise ValueError when the
  identifier cannot be found, returns the value of the key unchecked, here \<open>None\<close>: the
  first access succeeds with \<open>None\<close> after one request, the object is left unresolved,
  and the second access makes a second request.
\<close>

theorem channel_id_fetches_again_after_none:
  "fst (channel_id (serve page_id_null) loads_pages (Channel_init ''u'') []) = Inr JNull \<and>
   snd (snd (channel_id (serve page_id_null) loads_pages (Channel_init ''u'') [])) = [''u''] \<and>
   snd (snd (channel_id (serve page_id_null) loads_pages
     (fst (snd (channel_id (serve page_id_null) loads_pages (Channel_init ''u'') []))) [''u''])) =
     [''u'', ''u'']"
  by code_simp

section \<open>The result-card parser\<close>

lemma classify_badges_last:
  "classify_badges bs (v, l, u) =
     (last_text (filter is_views_badge bs) v, last_text (filter is_likes_badge bs) l,
      last_text (filter is_date_badge bs) u)"
proof (induction bs arbitrary: v l u)
  case Nil
  show ?case by (simp add: last_text_def)
next
  case (Cons b bs)
  show ?case
    by (simp add: Cons.IH last_text_def is_views_badge_def is_likes_badge_def
        is_date_badge_def Let_def)
qed

lemma extract_card_Inr:
  "extract_card c = Inr r \<Longrightarrow> find c ''div'' (has_class ''scroll-box'') \<noteq> None"
  by (cases "find c ''div'' (has_class ''scroll-box'')")
     (simp_all add: extract_card_def Let_def split: prod.splits)

lemma extract_card_badges:
  assumes "extract_card c = Inr r"
  shows "(VideoInfo.views r, VideoInfo.likes r, upload_date r) =
     classify_badges (find_all c ''span'' (has_class ''badge'')) (None, None, None)"
  using assms
  by (cases "find c ''div'' (has_class ''scroll-box'')")
     (auto simp add: extract_card_def Let_def split: prod.splits)

lemma extract_card_id:
  "extract_card c = Inr r \<Longrightarrow> vcard_id r = tag_get c ''id''"
  by (cases "find c ''div'' (has_class ''scroll-box'')")
     (auto simp add: extract_card_def Let_def split: prod.splits)

lemma extract_card_ok:
  "find c ''div'' (has_class ''scroll-box'') \<noteq> None \<Longrightarrow> \<exists>r. extract_card c = Inr r"
  by (cases "find c ''div'' (has_class ''scroll-box'')")
     (simp_all add: extract_card_def Let_def split: prod.splits)

lemma extract_card_raises:
  "find c ''div'' (has_class ''scroll-box'') = None \<Longrightarrow> extract_card c = Inl AttributeError"
  by (simp add: extract_card_def Let_def split: prod.splits)

lemma extract_loop_all:
  "list_all2 (\<lambda>c r. extract_card c = Inr r) cards rs \<Longrightarrow>
     extract_loop cards acc = Inr (acc @ rs)"
proof (induction cards arbitrary: rs acc)
  case Nil
  then show ?case by simp
next
  case (Cons c cards)
  then obtain r rs' where rs: "rs = r # rs'" "extract_card c = Inr r"
      "list_all2 (\<lambda>c r. extract_card c = Inr r) cards rs'"
    by (auto simp: list_all2_Cons1)
  from Cons.IH [OF rs(3), of "acc @ [r]"] rs show ?case by simp
qed

lemma all_cards_ok:
  "\<forall>c \<in> set cards. find c ''div'' (has_class ''scroll-box'') \<noteq> None \<Longrightarrow>
     \<exists>rs. list_all2 (\<lambda>c r. extract_card c = Inr r) cards rs"
proof (induction cards)
  case Nil
  show ?case by simp
next
  case (Cons c cards)
  then obtain rs where rs: "list_all2 (\<lambda>c r. extract_card c = Inr r) cards rs" by auto
  from Cons.prems extract_card_ok [of c] obtain r where "extract_card c = Inr r" by auto
  with rs have "list_all2 (\<lambda>c r. extract_card c = Inr r) (c # cards) (r # rs)" by simp
  then show ?case by blast
qed


text \<open>
  Claim C2. Every matched card yields one record whatever optional sub-elements are
  missing; a missing sub-field is \<open>None\<close> and no exception is raised; a card with no
  sub-element at all yields one record with every optional field unknown. The code
  does not meet it for the snippet container: on the page \<open>doc_bare_card\<close>, whose only
  card is empty, \<open>scroll_text\<close> is \<open>None\<close>, \<open>scroll_text.split()\<close> raises AttributeError,
  and \<open>extract\<close> returns no record.
\<close>

theorem extract_bare_card_raises:
  "VideoInfoExtractor_extract (\<lambda>html. doc_bare_card) html = Inl AttributeError"
  by code_simp

text \<open>
  Claim C3, as amended. A card that holds a snippet container has a record, and in it
  \<open>views\<close> is the text of the last badge with an eye icon, \<open>likes\<close> the text of the last
  badge with a thumbs-up icon and no eye icon, and \<open>upload_date\<close> the text of the last
  badge with neither icon whose text has a letter; a field with no such badge is
  \<open>None\<close>. So a card with exactly one badge of each class gets the three texts in the
  three fields, wherever the badges stand among the badges of the card.
\<close>

theorem badges_last_match_wins:
  assumes "find c ''div'' (has_class ''scroll-box'') \<noteq> None"
  shows "\<exists>r. extract_card c = Inr r \<and>
         VideoInfo.views r =
           last_text (filter is_views_badge (find_all c ''span'' (has_class ''badge''))) None \<and>
         VideoInfo.likes r =
           last_text (filter is_likes_badge (find_all c ''span'' (has_class ''badge''))) None \<and>
         upload_date r =
           last_text (filter is_date_badge (find_all c ''span'' (has_class ''badge''))) None \<and>
         (\<forall>v l d.
            filter is_views_badge (find_all c ''span'' (has_class ''badge'')) = [v] \<and>
            filter is_likes_badge (find_all c ''span'' (has_class ''badge'')) = [l] \<and>
            filter is_date_badge (find_all c ''span'' (has_class ''badge'')) = [d] \<longrightarrow>
            VideoInfo.views r = Some (get_text [] v) \<and> VideoInfo.likes r = Some (get_text [] l) \<and>
            upload_date r = Some (get_text [] d))"
proof -
  let ?bs = "find_all c ''span'' (has_class ''badge'')"
  from extract_card_ok [OF assms] obtain r where r: "extract_card c = Inr r" by blast
  have eq: "(VideoInfo.views r, VideoInfo.likes r, upload_date r) =
      (last_text (filter is_views_badge ?bs) None, last_text (filter is_likes_badge ?bs) None,
       last_text (filter is_date_badge ?bs) None)"
    using extract_card_badges [OF r] by (simp add: classify_badges_last)
  then have v: "VideoInfo.views r = last_text (filter is_views_badge ?bs) None"
    and l: "VideoInfo.likes r = last_text (filter is_likes_badge ?bs) None"
    and u: "upload_date r = last_text (filter is_date_badge ?bs) None"
    by simp_all
  have "\<forall>v l d.
      filter is_views_badge ?bs = [v] \<and> filter is_likes_badge ?bs = [l] \<and>
      filter is_date_badge ?bs = [d] \<longrightarrow>
      VideoInfo.views r = Some (get_text [] v) \<and> VideoInfo.likes r = Some (get_text [] l) \<and>
      upload_date r = Some (get_text [] d)"
    unfolding v l u by (simp add: last_text_def)
  with r v l u show ?thesis by blast
qed

lemma card_three_badges_record:
  "extract_card card_three_badges =
     Inr \<lparr>vcard_id = Some ''vcard7'', idx = Some ''0'', video_id = None,
         thumbnail_url = None, video_link = None, VideoInfo.title = None,
         channel = None, VideoInfo.views = Some ''1,234'', VideoInfo.likes = Some ''56'',
         upload_date = Some ''Jan 1, 2020'', language = None,
         scroll_text = Some ''some words''\<rparr>"
  by code_simp

theorem badges_last_match_wins_witness:
  "map (get_text []) (find_all card_three_badges ''span'' (has_class ''badge'')) =
     [''Jan 1, 2020'', ''56'', ''1,234''] \<and>
   map_sum id (\<lambda>r. (VideoInfo.views r, VideoInfo.likes r, upload_date r))
     (extract_card card_three_badges) = Inr (Some ''1,234'', Some ''56'', Some ''Jan 1, 2020'')"
proof -
  have texts: "map (get_text []) (find_all card_three_badges ''span'' (has_class ''badge'')) =
     [''Jan 1, 2020'', ''56'', ''1,234'']"
    by code_simp
  have box: "find card_three_badges ''div'' (has_class ''scroll-box'') \<noteq> None"
    by code_simp
  have v: "last_text (filter is_views_badge (find_all card_three_badges ''span'' (has_class ''badge''))) None = Some ''1,234''"
    by code_simp
  have l: "last_text (filter is_likes_badge (find_all card_three_badges ''span'' (has_class ''badge''))) None = Some ''56''"
    by code_simp
  have u: "last_text (filter is_date_badge (find_all card_three_badges ''span'' (has_class ''badge''))) None = Some ''Jan 1, 2020''"
    by code_simp
  from badges_last_match_wins [OF box] obtain r where
    "extract_card card_three_badges = Inr r"
    "VideoInfo.views r =
       last_text (filter is_views_badge (find_all card_three_badges ''span'' (has_class ''badge''))) None"
    "VideoInfo.likes r =
       last_text (filter is_likes_badge (find_all card_three_badges ''span'' (has_class ''badge''))) None"
    "upload_date r =
       last_text (filter is_date_badge (find_all card_three_badges ''span'' (has_class ''badge''))) None"
    by blast
  with v l u texts show ?thesis by simp
qed

text \<open>
  The claim as stated lets the first badge without icon decide the upload date. The
  card \<open>card_two_dates\<close> has two such badges, \<open>Jan 1, 2020\<close> first and \<open>English\<close> second,
  and its upload date is \<open>English\<close>.
\<close>

theorem badges_first_date_does_not_win:
  "map (get_text []) (filter is_date_badge (find_all card_two_dates ''span'' (has_class ''badge''))) =
     [''Jan 1, 2020'', ''English''] \<and>
   map_sum id upload_date (extract_card card_two_dates) = Inr (Some ''English'')"
  by code_simp

text \<open>
  Claim C4, as amended. The cards of a document are the \<open>div\<close> elements whose \<open>id\<close>
  begins with \<open>vcard\<close>, taken from the descendants of the document in document order.
  When every card holds a snippet container (a \<open>div\<close> of class \<open>scroll-box\<close>), \<open>extract\<close>
  returns one record per card, the \<open>i\<close>-th record being that of the \<open>i\<close>-th card and
  carrying its \<open>id\<close>; with no card the result is the empty list.
\<close>

theorem extract_one_record_per_card_div:
  assumes "\<forall>c \<in> set (filter (matches ''div'' id_vcard) (descendants (BeautifulSoup html))).
             find c ''div'' (has_class ''scroll-box'') \<noteq> None"
  shows "\<exists>records.
           VideoInfoExtractor_extract BeautifulSoup html = Inr records \<and>
           length records = length (filter (matches ''div'' id_vcard) (descendants (BeautifulSoup html))) \<and>
           list_all2 (\<lambda>c r. extract_card c = Inr r \<and> vcard_id r = tag_get c ''id'')
             (filter (matches ''div'' id_vcard) (descendants (BeautifulSoup html))) records"
proof -
  let ?cards = "filter (matches ''div'' id_vcard) (descendants (BeautifulSoup html))"
  from all_cards_ok [OF assms] obtain rs
    where rs: "list_all2 (\<lambda>c r. extract_card c = Inr r) ?cards rs" by blast
  have run: "VideoInfoExtractor_extract BeautifulSoup html = Inr rs"
    using extract_loop_all [OF rs, of "[]"]
    by (simp add: VideoInfoExtractor_extract_def find_all_def Let_def)
  have len: "length rs = length ?cards" using rs by (simp add: list_all2_lengthD)
  have "list_all2 (\<lambda>c r. extract_card c = Inr r \<and> vcard_id r = tag_get c ''id'') ?cards rs"
    using rs by (rule list_all2_mono) (simp add: extract_card_id)
  with run len show ?thesis by blast
qed

theorem extract_one_record_per_card_div_witness:
  "VideoInfoExtractor_extract (\<lambda>html. doc_three_badges) [] =
     Inr [\<lparr>vcard_id = Some ''vcard7'', idx = Some ''0'', video_id = None,
         thumbnail_url = None, video_link = None, VideoInfo.title = None,
         channel = None, VideoInfo.views = Some ''1,234'', VideoInfo.likes = Some ''56'',
         upload_date = Some ''Jan 1, 2020'', language = None,
         scroll_text = Some ''some words''\<rparr>]"
proof -
  have cards: "filter (matches ''div'' id_vcard) (descendants doc_three_badges) = [card_three_badges]"
    by code_simp
  have box: "find card_three_badges ''div'' (has_class ''scroll-box'') \<noteq> None"
    by code_simp
  from extract_one_record_per_card_div [of "\<lambda>html. doc_three_badges" "[]"] cards box
  obtain records where
    "VideoInfoExtractor_extract (\<lambda>html. doc_three_badges) [] = Inr records"
    "list_all2 (\<lambda>c r. extract_card c = Inr r \<and> vcard_id r = tag_get c ''id'') [card_three_badges] records"
    by auto
  then show ?thesis
    by (auto simp: list_all2_Cons1 card_three_badges_record)
qed

text \<open>
  The claim as stated counts every element whose \<open>id\<close> begins with \<open>vcard\<close>. The page
  \<open>doc_span_card\<close> has one such element, a \<open>span\<close>, and \<open>extract\<close> returns no record.
\<close>

theorem extract_skips_span_card:
  "filter has_vcard_id (descendants doc_span_card) =
     [Tag ''span'' [(''id'', ''vcard1'')] [snippet]] \<and>
   VideoInfoExtractor_extract (\<lambda>html. doc_span_card) [] = Inr []"
  by code_simp

section \<open>Termination of the lazy iteration\<close>

lemma loop_to_empty:
  assumes "a \<le> n" "\<forall>k. a \<le> k \<and> k < n \<longrightarrow> (\<exists>vs. sp k = Inr vs \<and> vs \<noteq> [])" "sp n = Inr []"
  shows "search_all_loop sp a acc = Some (acc @ concat (map (\<lambda>k. projr (sp k)) [a..n - 1]), None)"
  using assms
proof (induction "nat (n - a)" arbitrary: a acc)
  case 0
  then have "a = n" by simp
  with 0 show ?case by (subst search_all_loop.simps) simp
next
  case (Suc m)
  then have lt: "a < n" by linarith
  with Suc.prems obtain vs where vs: "sp a = Inr vs" "vs \<noteq> []" by auto
  have m: "m = nat (n - (a + 1))" using Suc.hyps by linarith
  have ih: "search_all_loop sp (a + 1) (acc @ vs) =
        Some ((acc @ vs) @ concat (map (\<lambda>k. projr (sp k)) [a + 1..n - 1]), None)"
    using Suc.hyps(1) [OF m, of "acc @ vs"] Suc.prems lt by auto
  have up: "[a..n - 1] = a # [a + 1..n - 1]" using lt by (simp add: upto_rec1)
  show ?case
    by (subst search_all_loop.simps) (simp add: vs ih up)
qed

lemma loop_normal_exit:
  "search_all_loop sp a acc = Some y \<Longrightarrow> snd y = None \<longrightarrow>
    (\<exists>n\<ge>a. sp n = Inr [] \<and> (\<forall>k. a \<le> k \<and> k < n \<longrightarrow> (\<exists>vs. sp k = Inr vs \<and> vs \<noteq> [])))"
proof (induct sp a acc y rule: search_all_loop.raw_induct [rotated 1, consumes 1, case_names step])
  case (step loop sp a acc y)
  show ?case
  proof (cases "sp a")
    case (Inl e)
    with step(2) show ?thesis by auto
  next
    case (Inr videos)
    show ?thesis
    proof (cases "videos = []")
      case True
      with Inr show ?thesis by (intro impI exI [of _ a]) auto
    next
      case False
      with step(2) Inr have "loop sp (a + 1) (acc @ videos) = Some y" by simp
      from step(1) [OF this] have ih: "snd y = None \<longrightarrow>
        (\<exists>n\<ge>a + 1. sp n = Inr [] \<and> (\<forall>k. a + 1 \<le> k \<and> k < n \<longrightarrow> (\<exists>vs. sp k = Inr vs \<and> vs \<noteq> [])))" .
      show ?thesis
      proof
        assume "snd y = None"
        with ih obtain n where n: "n \<ge> a + 1" "sp n = Inr []"
          "\<forall>k. a + 1 \<le> k \<and> k < n \<longrightarrow> (\<exists>vs. sp k = Inr vs \<and> vs \<noteq> [])" by blast
        have "\<forall>k. a \<le> k \<and> k < n \<longrightarrow> (\<exists>vs. sp k = Inr vs \<and> vs \<noteq> [])"
        proof (intro allI impI)
          fix k assume k: "a \<le> k \<and> k < n"
          show "\<exists>vs. sp k = Inr vs \<and> vs \<noteq> []"
          proof (cases "k = a")
            case True with Inr False show ?thesis by simp
          next
            case False with k n(3) show ?thesis by auto
          qed
        qed
        with n show "\<exists>n\<ge>a. sp n = Inr [] \<and> (\<forall>k. a \<le> k \<and> k < n \<longrightarrow> (\<exists>vs. sp k = Inr vs \<and> vs \<noteq> []))"
          by (intro exI [of _ n]) auto
      qed
    qed
  qed
qed


text \<open>
  Claim C7. When page \<open>n\<close> is the first page with no record (every page before it is
  fetched without error and has a record), the generator yields the records of the
  pages 1 to \<open>n - 1\<close>, page after page and each page in its own order, and then ends
  without an exception. Conversely the generator ends normally only at such a page:
  the empty page is the only way it stops by itself.
\<close>

theorem search_all_stops_at_first_empty_page:
  "(1 \<le> n \<and> (\<forall>k. 1 \<le> k \<and> k < n \<longrightarrow> (\<exists>vs. sp k = Inr vs \<and> vs \<noteq> [])) \<and> sp n = Inr [] \<longrightarrow>
      search_all sp = Some (concat (map (\<lambda>k. projr (sp k)) [1..n - 1]), None)) \<and>
   (search_all sp = Some (ys, None) \<longrightarrow>
      (\<exists>m\<ge>1. sp m = Inr [] \<and> (\<forall>k. 1 \<le> k \<and> k < m \<longrightarrow> (\<exists>vs. sp k = Inr vs \<and> vs \<noteq> []))))"
proof (intro conjI impI)
  assume h: "1 \<le> n \<and> (\<forall>k. 1 \<le> k \<and> k < n \<longrightarrow> (\<exists>vs. sp k = Inr vs \<and> vs \<noteq> [])) \<and> sp n = Inr []"
  then have "search_all_loop sp 1 [] = Some ([] @ concat (map (\<lambda>k. projr (sp k)) [1..n - 1]), None)"
    by (intro loop_to_empty) auto
  then show "search_all sp = Some (concat (map (\<lambda>k. projr (sp k)) [1..n - 1]), None)"
    by (simp add: search_all_def)
next
  assume "search_all sp = Some (ys, None)"
  then have "search_all_loop sp 1 [] = Some (ys, None)" by (simp add: search_all_def)
  from loop_normal_exit [OF this]
  show "\<exists>m\<ge>1. sp m = Inr [] \<and> (\<forall>k. 1 \<le> k \<and> k < m \<longrightarrow> (\<exists>vs. sp k = Inr vs \<and> vs \<noteq> []))"
    by simp
qed

theorem search_all_stops_at_first_empty_page_witness:
  "search_all (\<lambda>k. if k = 1 then Inr [10, 11] else if k = 2 then Inr [20] else Inr []) =
     Some ([10, 11, 20 :: nat], None)"
proof -
  let ?sp = "\<lambda>k::int. if k = 1 then Inr [10, 11] else if k = 2 then Inr [20] else (Inr [] :: error + nat list)"
  have pages: "\<forall>k. 1 \<le> k \<and> k < 3 \<longrightarrow> (\<exists>vs. ?sp k = Inr vs \<and> vs \<noteq> [])"
  proof (intro allI impI)
    fix k :: int assume "1 \<le> k \<and> k < 3"
    then have "k = 1 \<or> k = 2" by arith
    then show "\<exists>vs. ?sp k = Inr vs \<and> vs \<noteq> []" by auto
  qed
  have up: "[1..(3::int) - 1] = [1, 2]" by (simp add: upto_rec1)
  from pages search_all_stops_at_first_empty_page [of 3 ?sp "[]"]
  have "search_all ?sp = Some (concat (map (\<lambda>k. projr (?sp k)) [1..3 - 1]), None)"
    by simp
  then show ?thesis unfolding up by simp
qed

section \<open>The query string of the search URL\<close>

lemma char_of_of_char_nat: "char_of (of_char c :: nat) = c"
  by simp

lemma of_char_lt_256: "(of_char c :: nat) < 256"
proof -
  have "(of_char c :: nat) mod 256 < 256" by (rule mod_less_divisor) simp
  then show ?thesis by (simp only: of_char_mod_256)
qed

lemma of_char_char_of_nat: "n < 256 \<Longrightarrow> (of_char (char_of n :: char) :: nat) = n"
  by (simp add: of_char_of)

lemma utf8_decode_two:
  fixes b1 b2 :: char
  assumes "(of_char b1 :: nat) = 194 \<or> (of_char b1 :: nat) = 195"
    and "128 \<le> (of_char b2 :: nat)" and "(of_char b2 :: nat) < 192"
  shows "utf8_decode (b1 # b2 # bs) =
    map_option ((#) (char_of (((of_char b1 :: nat) - 192) * 64 + ((of_char b2 :: nat) - 128))))
      (utf8_decode bs)"
  using assms by (auto simp add: Let_def)

lemma utf8_decode_one:
  "(of_char b :: nat) < 128 \<Longrightarrow> utf8_decode (b # bs) = map_option ((#) b) (utf8_decode bs)"
  by (cases bs) (simp_all add: Let_def)

lemma div64_bounds: "128 \<le> n \<Longrightarrow> n < 256 \<Longrightarrow> 2 \<le> n div 64 \<and> n div 64 < (4::nat)"
  by (simp add: div_less_iff_less_mult less_eq_div_iff_mult_less_eq)

lemma utf8_decode_char:
  "utf8_decode (utf8_char c @ bs) = map_option ((#) c) (utf8_decode bs)"
proof (cases "(of_char c :: nat) < 128")
  case True
  then show ?thesis by (simp add: utf8_char_def utf8_decode_one)
next
  case False
  define n where "n = (of_char c :: nat)"
  define b1 :: char where "b1 = char_of (192 + n div 64)"
  define b2 :: char where "b2 = char_of (128 + n mod 64)"
  have n: "128 \<le> n" "n < 256" using False of_char_lt_256 [of c] by (simp_all add: n_def)
  have "192 + n div 64 < 256" using div64_bounds [OF n] by linarith
  then have v1: "(of_char b1 :: nat) = 192 + n div 64"
    unfolding b1_def by (rule of_char_char_of_nat)
  have "n mod 64 < 64" by simp
  then have "128 + n mod 64 < 256" by linarith
  then have v2: "(of_char b2 :: nat) = 128 + n mod 64"
    unfolding b2_def by (rule of_char_char_of_nat)
  have d: "n div 64 = 2 \<or> n div 64 = 3" using div64_bounds [OF n] by linarith
  have enc: "utf8_char c = [b1, b2]"
    using False by (simp add: utf8_char_def Let_def b1_def b2_def n_def)
  have orig: "((of_char b1 :: nat) - 192) * 64 + ((of_char b2 :: nat) - 128) = n"
    unfolding v1 v2 by simp
  have "utf8_decode (b1 # b2 # bs) =
      map_option ((#) (char_of (((of_char b1 :: nat) - 192) * 64 + ((of_char b2 :: nat) - 128))))
        (utf8_decode bs)"
    by (rule utf8_decode_two) (use v1 v2 d in simp_all)
  also have "\<dots> = map_option ((#) (char_of n)) (utf8_decode bs)"
    by (simp only: orig)
  also have "char_of n = c" by (simp add: n_def)
  finally show ?thesis by (simp add: enc)
qed

lemma utf8_roundtrip: "utf8_decode (utf8_encode s) = Some s"
  by (induction s) (simp_all add: utf8_encode_def utf8_decode_char)

lemma hex_digits_table:
  "list_all (\<lambda>k. hex_value (hex_digit k) = Some k \<and> unreserved (hex_digit k)) [0..<16]"
  by code_simp

lemma hex_digit_facts:
  assumes "k < 16"
  shows "hex_value (hex_digit k) = Some k" "unreserved (hex_digit k)"
  using hex_digits_table assms by (simp_all add: list_all_iff)

lemma unreserved_not_special:
  "unreserved c \<Longrightarrow> c \<noteq> CHR ''%'' \<and> c \<noteq> CHR ''+'' \<and> c \<noteq> CHR ''&'' \<and> c \<noteq> CHR ''='' \<and>
     c \<noteq> CHR '' '' \<and> c \<noteq> CHR ''?'' \<and> c \<noteq> CHR ''#'' \<and> c \<noteq> CHR ''/''"
  by (auto simp: unreserved_def)

lemma byte_nibbles:
  fixes b :: char
  shows "(of_char b :: nat) div 16 < 16" "(of_char b :: nat) mod 16 < 16"
    "char_of (16 * ((of_char b :: nat) div 16) + (of_char b :: nat) mod 16) = b"
proof -
  show "(of_char b :: nat) div 16 < 16"
    using of_char_lt_256 [of b] by (simp add: div_less_iff_less_mult)
  show "(of_char b :: nat) mod 16 < 16" by simp
  have "16 * ((of_char b :: nat) div 16) + (of_char b :: nat) mod 16 = of_char b" by simp
  then show "char_of (16 * ((of_char b :: nat) div 16) + (of_char b :: nat) mod 16) = b"
    by (simp only: char_of_char)
qed

lemma unquote_to_bytes_plain:
  "c \<noteq> CHR ''%'' \<Longrightarrow> unquote_to_bytes (c # r) = c # unquote_to_bytes r"
proof (cases r)
  case Nil
  then show ?thesis by simp
next
  case (Cons d r')
  assume c: "c \<noteq> CHR ''%''"
  show ?thesis
  proof (cases r')
    case Nil
    with Cons show ?thesis by simp
  next
    case (Cons e r'')
    with \<open>r = d # r'\<close> c show ?thesis by simp
  qed
qed

lemma unquote_to_bytes_escape:
  fixes b :: char
  shows "unquote_to_bytes (CHR ''%'' # hex_digit ((of_char b :: nat) div 16) #
           hex_digit ((of_char b :: nat) mod 16) # r) = b # unquote_to_bytes r"
  by (simp add: hex_digit_facts byte_nibbles)

lemma unquote_to_bytes_quote_byte:
  assumes "\<And>c. safe c \<Longrightarrow> c \<noteq> CHR ''%''"
  shows "unquote_to_bytes (quote_byte safe b @ r) = b # unquote_to_bytes r"
proof (cases "safe b")
  case True
  with assms have "b \<noteq> CHR ''%''" by blast
  with True show ?thesis by (simp add: quote_byte_def unquote_to_bytes_plain)
next
  case False
  then have "quote_byte safe b @ r = CHR ''%'' # hex_digit ((of_char b :: nat) div 16) #
      hex_digit ((of_char b :: nat) mod 16) # r"
    by (simp add: quote_byte_def)
  then show ?thesis by (simp only: unquote_to_bytes_escape)
qed

lemma quote_byte_chars: "list_all (\<lambda>c. unreserved c \<or> c = CHR ''%'') (quote_byte unreserved b)"
  by (simp add: quote_byte_def hex_digit_facts byte_nibbles)

lemma map_plus_to_space_quote_byte:
  "map plus_to_space (quote_byte unreserved b) = quote_byte unreserved b"
proof -
  have "\<forall>c \<in> set (quote_byte unreserved b). plus_to_space c = c"
    using quote_byte_chars [of b] unreserved_not_special
    by (auto simp: list_all_iff plus_to_space_def)
  then show ?thesis by (simp add: map_idI)
qed

lemma unquote_plus_bytes:
  "unquote_to_bytes (map plus_to_space
     (concat (map (\<lambda>b. if b = CHR '' '' then ''+'' else quote_byte unreserved b) bs))) = bs"
proof (induction bs)
  case Nil
  show ?case by simp
next
  case (Cons b bs)
  show ?case
  proof (cases "b = CHR '' ''")
    case True
    then show ?thesis
      using Cons.IH by (simp add: plus_to_space_def unquote_to_bytes_plain)
  next
    case False
    have "unquote_to_bytes (quote_byte unreserved b @ map plus_to_space
       (concat (map (\<lambda>b. if b = CHR '' '' then ''+'' else quote_byte unreserved b) bs))) =
       b # bs"
      using unreserved_not_special
      by (subst unquote_to_bytes_quote_byte) (auto simp: Cons.IH)
    with False show ?thesis by (simp add: map_plus_to_space_quote_byte)
  qed
qed

lemma unquote_plus_quote_plus: "unquote_plus (quote_plus s) = Some s"
proof -
  have "map (\<lambda>c. if c = CHR ''+'' then CHR '' '' else c) = map plus_to_space"
    by (simp add: plus_to_space_def [abs_def])
  then show ?thesis
    by (simp add: unquote_plus_def quote_plus_def unquote_plus_bytes utf8_roundtrip)
qed

lemma list_all_concat_map:
  "(\<And>x. list_all P (f x)) \<Longrightarrow> list_all P (concat (map f xs))"
  by (induction xs) simp_all

lemma quote_plus_chars: "list_all enc_char (quote_plus s)"
proof -
  have "list_all enc_char (if b = CHR '' '' then ''+'' else quote_byte unreserved b)" for b
    using quote_byte_chars [of b] by (auto simp: enc_char_def list_all_iff)
  then show ?thesis unfolding quote_plus_def by (rule list_all_concat_map)
qed

lemma utf8_char_not_Nil: "utf8_char c \<noteq> []"
  by (simp add: utf8_char_def Let_def)

lemma quote_plus_not_Nil: "s \<noteq> [] \<Longrightarrow> quote_plus s \<noteq> []"
proof -
  assume "s \<noteq> []"
  then obtain a s' where s: "s = a # s'" by (cases s) auto
  obtain b bs where b: "utf8_char a = b # bs" using utf8_char_not_Nil [of a] by (cases "utf8_char a") auto
  have "(if b = CHR '' '' then ''+'' else quote_byte unreserved b) \<noteq> []"
    by (simp add: quote_byte_def)
  then show ?thesis by (simp add: quote_plus_def utf8_encode_def s b)
qed

lemma enc_char_not_sep: "enc_char c \<Longrightarrow> c \<noteq> CHR ''&'' \<and> c \<noteq> CHR ''='' \<and> c \<noteq> CHR ''?'' \<and> c \<noteq> CHR ''#''"
  using unreserved_not_special by (auto simp: enc_char_def)

lemma enc_char_query: "enc_char c \<Longrightarrow> query_char c"
  by (auto simp: enc_char_def query_char_def)

lemma split_on_not_Nil: "split_on sep s \<noteq> []"
  by (induction s) (auto split: list.splits)

lemma split_on_none: "sep \<notin> set x \<Longrightarrow> split_on sep x = [x]"
  by (induction x) auto

lemma split_on_append:
  "sep \<notin> set x \<Longrightarrow> split_on sep (x @ sep # r) = x # split_on sep r"
  by (induction x) auto

lemma split_first_append:
  "sep \<notin> set k \<Longrightarrow> split_first sep (k @ sep # v) = Some (k, v)"
proof -
  assume k: "sep \<notin> set k"
  then have d: "dropWhile (\<lambda>c. c \<noteq> sep) (k @ sep # v) = sep # v"
    by (induction k) auto
  from k have t: "takeWhile (\<lambda>c. c \<noteq> sep) (k @ sep # v) = k"
    by (induction k) auto
  show ?thesis by (simp add: split_first_def d t)
qed

lemma urlencode_items: "urlencode params = py_join ''&'' (map item params)"
proof -
  have "(\<lambda>(k, v). quote_plus k @ ''='' @ quote_plus v) = item"
    by (simp add: fun_eq_iff item_def)
  then show ?thesis by (simp only: urlencode_def)
qed

lemma item_chars: "list_all query_char (item kv)"
  using quote_plus_chars [of "fst kv"] quote_plus_chars [of "snd kv"] enc_char_query
  by (auto simp: item_def list_all_iff query_char_def)

lemma item_no_amp: "CHR ''&'' \<notin> set (item kv)"
  using quote_plus_chars [of "fst kv"] quote_plus_chars [of "snd kv"] enc_char_not_sep
  by (auto simp: item_def list_all_iff)

lemma item_not_Nil: "item kv \<noteq> []"
  by (simp add: item_def)

lemma parse_item:
  assumes "snd kv \<noteq> []"
  shows "parse_fields (item kv # rest) =
    (case parse_fields rest of Some r \<Rightarrow> Some (kv # r) | None \<Rightarrow> None)"
proof -
  have "CHR ''='' \<notin> set (quote_plus (fst kv))"
    using quote_plus_chars [of "fst kv"] enc_char_not_sep by (auto simp: list_all_iff)
  then have sp: "split_first (CHR ''='') (item kv) = Some (quote_plus (fst kv), quote_plus (snd kv))"
    unfolding item_def by (simp add: split_first_append)
  have v: "quote_plus (snd kv) \<noteq> []" using assms by (rule quote_plus_not_Nil)
  show ?thesis
    by (simp add: item_not_Nil sp v unquote_plus_quote_plus split: option.splits)
qed

lemma parse_fields_items:
  "ps \<noteq> [] \<Longrightarrow> list_all (\<lambda>kv. snd kv \<noteq> []) ps \<Longrightarrow>
     parse_fields (split_on (CHR ''&'') (py_join ''&'' (map item ps))) = Some ps"
proof (induction ps)
  case Nil
  then show ?case by simp
next
  case (Cons kv ps)
  show ?case
  proof (cases ps)
    case Nil
    then show ?thesis
      using Cons.prems by (simp add: split_on_none item_no_amp parse_item del: parse_fields.simps(2))
  next
    case (Cons kv' ps')
    then have "py_join ''&'' (map item (kv # ps)) = item kv @ CHR ''&'' # py_join ''&'' (map item ps)"
      by simp
    then have "split_on (CHR ''&'') (py_join ''&'' (map item (kv # ps))) =
        item kv # split_on (CHR ''&'') (py_join ''&'' (map item ps))"
      by (simp only: split_on_append [OF item_no_amp])
    moreover have "parse_fields (split_on (CHR ''&'') (py_join ''&'' (map item ps))) = Some ps"
      using Cons.IH Cons.prems Cons by simp
    ultimately show ?thesis using Cons.prems by (simp add: parse_item del: parse_fields.simps(2))
  qed
qed

lemma py_join_items_not_Nil: "ps \<noteq> [] \<Longrightarrow> py_join ''&'' (map item ps) \<noteq> []"
proof (cases ps)
  case Nil
  assume "ps \<noteq> []"
  with Nil show ?thesis by simp
next
  case (Cons kv ps')
  then show ?thesis by (cases ps') (simp_all add: item_not_Nil)
qed

lemma parse_qsl_urlencode:
  "list_all (\<lambda>kv. snd kv \<noteq> []) ps \<Longrightarrow> parse_qsl (urlencode ps) = Some ps"
proof (cases "ps = []")
  case True
  then show ?thesis by (simp add: parse_qsl_def urlencode_def)
next
  case False
  assume "list_all (\<lambda>kv. snd kv \<noteq> []) ps"
  with False show ?thesis
    by (simp add: parse_qsl_def urlencode_items py_join_items_not_Nil parse_fields_items)
qed

lemma py_join_chars:
  "list_all P sep \<Longrightarrow> list_all (list_all P) xs \<Longrightarrow> list_all P (py_join sep xs)"
  by (induction sep xs rule: py_join.induct) simp_all

lemma urlencode_chars: "list_all query_char (urlencode ps)"
proof -
  have "list_all (list_all query_char) (map item ps)"
    by (induction ps) (simp_all add: item_chars)
  moreover have "list_all query_char ''&''" by (simp add: query_char_def)
  ultimately show ?thesis unfolding urlencode_items by (intro py_join_chars)
qed

lemma to_dict_wire: "map (\<lambda>(k, v). (k, py_str v)) (to_dict f) = wire_filters f"
  by (simp add: to_dict_def wire_filters_def wire_range_def wire_date_def List.map_filter_simps
      split: option.splits prod.splits)

lemma dict_set_fresh: "k \<notin> fst ` set d \<Longrightarrow> dict_set k v d = d @ [(k, v)]"
  by (induction d) auto

lemma dict_update_fresh:
  "distinct (map fst e) \<Longrightarrow> fst ` set e \<inter> fst ` set d = {} \<Longrightarrow> dict_update d e = d @ e"
proof (induction e arbitrary: d)
  case Nil
  show ?case by (simp add: dict_update_def)
next
  case (Cons kv e)
  obtain k v where kv: "kv = (k, v)" by (cases kv)
  from Cons.prems kv have fresh: "k \<notin> fst ` set d" by auto
  have "dict_update d (kv # e) = dict_update (dict_set k v d) e"
    by (simp add: dict_update_def kv)
  also have "\<dots> = dict_update (d @ [(k, v)]) e"
    by (simp only: dict_set_fresh [OF fresh])
  also have "\<dots> = (d @ [(k, v)]) @ e"
    using Cons.prems kv by (intro Cons.IH) auto
  finally show ?case by (simp add: kv)
qed

lemma keys_wire_range: "map fst (wire_range lo hi r) = keys_if (r \<noteq> None) [lo, hi]"
  by (cases r) (auto simp: wire_range_def keys_if_def)

lemma keys_wire_date: "map fst (wire_date k d) = keys_if (d \<noteq> None) [k]"
  by (cases d) (auto simp: wire_date_def keys_if_def)

lemma keys_title:
  "map fst (case t of Some t \<Rightarrow> if t \<noteq> [] then [(''title'', t)] else [] | None \<Rightarrow> []) =
     keys_if (t \<noteq> None \<and> t \<noteq> Some []) [''title'']"
  by (cases t) (auto simp: keys_if_def)

lemma keys_dates:
  "map fst (case r of Some (a, b) \<Rightarrow> wire_date ''startDate'' a @ wire_date ''endDate'' b | None \<Rightarrow> []) =
     keys_if (r \<noteq> None \<and> fst (the r) \<noteq> None) [''startDate''] @
     keys_if (r \<noteq> None \<and> snd (the r) \<noteq> None) [''endDate'']"
  by (cases r) (auto simp: keys_if_def wire_date_def split: option.splits)

lemma keys_license:
  "map fst (case l of Some l \<Rightarrow> [(''license'', LicenseType_value l)] | None \<Rightarrow> []) =
     keys_if (l \<noteq> None) [''license'']"
  by (cases l) (auto simp: keys_if_def)

lemma wire_filters_key_list:
  "map fst (wire_filters f) =
     keys_if (Filters.title f \<noteq> None \<and> Filters.title f \<noteq> Some []) [''title''] @
     keys_if (duration f \<noteq> None) [''startDuration'', ''endDuration''] @
     keys_if (Filters.views f \<noteq> None) [''minViews'', ''maxViews''] @
     keys_if (Filters.likes f \<noteq> None) [''minLikes'', ''maxLikes''] @
     keys_if (date_range f \<noteq> None \<and> fst (the (date_range f)) \<noteq> None) [''startDate''] @
     keys_if (date_range f \<noteq> None \<and> snd (the (date_range f)) \<noteq> None) [''endDate''] @
     keys_if (license f \<noteq> None) [''license'']"
  unfolding wire_filters_def map_append
  by (simp only: keys_wire_range keys_title keys_dates keys_license append_assoc)

lemma set_chosen: "set (chosen parts) \<subseteq> set (concat (map snd parts))"
  by (induction parts) (auto simp: chosen_def keys_if_def)

lemma distinct_chosen: "distinct (concat (map snd parts)) \<Longrightarrow> distinct (chosen parts)"
proof (induction parts)
  case Nil
  show ?case by (simp add: chosen_def)
next
  case (Cons p parts)
  obtain b ks where p: "p = (b, ks)" by (cases p)
  from Cons.prems have d: "distinct ks" "distinct (concat (map snd parts))"
    "set ks \<inter> set (concat (map snd parts)) = {}" by (simp_all add: p)
  from d(3) set_chosen [of parts] have "set ks \<inter> set (chosen parts) = {}" by blast
  moreover have "chosen (p # parts) = keys_if b ks @ chosen parts" by (simp add: chosen_def p)
  ultimately show ?case using d(1) Cons.IH [OF d(2)] by (simp add: keys_if_def)
qed

lemma wire_filters_chosen:
  "map fst (wire_filters f) = chosen
     [(Filters.title f \<noteq> None \<and> Filters.title f \<noteq> Some [], [''title'']),
      (duration f \<noteq> None, [''startDuration'', ''endDuration'']),
      (Filters.views f \<noteq> None, [''minViews'', ''maxViews'']),
      (Filters.likes f \<noteq> None, [''minLikes'', ''maxLikes'']),
      (date_range f \<noteq> None \<and> fst (the (date_range f)) \<noteq> None, [''startDate'']),
      (date_range f \<noteq> None \<and> snd (the (date_range f)) \<noteq> None, [''endDate'']),
      (license f \<noteq> None, [''license''])]"
  by (simp add: wire_filters_key_list chosen_def)

lemma wire_filters_keys:
  "distinct (map fst (wire_filters f))"
  "set (map fst (wire_filters f)) \<subseteq> set [''title'', ''startDuration'', ''endDuration'',
     ''minViews'', ''maxViews'', ''minLikes'', ''maxLikes'', ''startDate'', ''endDate'', ''license'']"
proof -
  show "distinct (map fst (wire_filters f))"
    unfolding wire_filters_chosen by (rule distinct_chosen) simp
  show "set (map fst (wire_filters f)) \<subseteq> set [''title'', ''startDuration'', ''endDuration'',
     ''minViews'', ''maxViews'', ''minLikes'', ''maxLikes'', ''startDate'', ''endDate'', ''license'']"
    unfolding wire_filters_chosen by (rule subset_trans [OF set_chosen]) simp
qed

lemma to_dict_keys: "map fst (to_dict f) = map fst (wire_filters f)"
proof -
  have "map fst (map (\<lambda>(k, v). (k, py_str v)) (to_dict f)) = map fst (to_dict f)"
    by (simp add: case_prod_beta)
  then show ?thesis by (simp only: to_dict_wire)
qed

lemma to_dict_key_facts:
  "distinct (map fst (to_dict f))" "set (map fst (to_dict f)) \<subseteq> set filter_names"
  unfolding to_dict_keys filter_names_def by (rule wire_filters_keys)+

lemma update_filters:
  assumes "set (map fst d) \<subseteq> {''gridView'', ''channelID''}"
  shows "dict_update d (to_dict f) = d @ to_dict f"
proof (rule dict_update_fresh)
  show "distinct (map fst (to_dict f))" by (rule to_dict_key_facts)
  have "set filter_names \<inter> {''gridView'', ''channelID''} = {}"
    by (simp add: filter_names_def)
  with assms to_dict_key_facts(2) [of f]
  have "set (map fst (to_dict f)) \<inter> set (map fst d) = {}" by blast
  then show "fst ` set (to_dict f) \<inter> fst ` set d = {}" by simp
qed

lemma update_sort:
  assumes "set (map fst d) \<subseteq> {''gridView'', ''channelID''} \<union> set filter_names"
  shows "dict_update d (sort_to_dict s) = d @ sort_to_dict s"
proof (rule dict_update_fresh)
  show "distinct (map fst (sort_to_dict s))" by (simp add: sort_to_dict_def)
  have "{''sortField'', ''sortOrder''} \<inter> ({''gridView'', ''channelID''} \<union> set filter_names) = {}"
    by (simp add: filter_names_def)
  with assms have "{''sortField'', ''sortOrder''} \<inter> set (map fst d) = {}" by blast
  then show "fst ` set (sort_to_dict s) \<inter> fst ` set d = {}"
    by (simp add: sort_to_dict_def)
qed

lemma channel_part_keys: "set (map fst (channel_part cid)) \<subseteq> {''channelID''}"
  by (auto simp: channel_part_def split: option.splits if_splits)

lemma set_channel:
  "(case cid of Some c \<Rightarrow> if c \<noteq> [] then dict_set ''channelID'' (PStr c) [(''gridView'', PInt 1)]
                 else [(''gridView'', PInt 1)]
    | None \<Rightarrow> [(''gridView'', PInt 1)]) = [(''gridView'', PInt 1)] @ channel_part cid"
  by (simp add: channel_part_def split: option.splits)

lemma filters_part_keys: "set (map fst (filters_part filters)) \<subseteq> set filter_names"
  using to_dict_key_facts(2) by (cases filters) (simp_all add: filters_part_def)

lemma set_filters:
  "(case filters of Some f \<Rightarrow> dict_update ([(''gridView'', PInt 1)] @ channel_part cid) (to_dict f)
    | None \<Rightarrow> [(''gridView'', PInt 1)] @ channel_part cid) =
   [(''gridView'', PInt 1)] @ channel_part cid @ filters_part filters"
proof (cases filters)
  case None
  then show ?thesis by (simp add: filters_part_def)
next
  case (Some f)
  have "set (map fst ([(''gridView'', PInt 1)] @ channel_part cid)) \<subseteq> {''gridView'', ''channelID''}"
    using channel_part_keys [of cid] by auto
  from update_filters [OF this, of f] Some show ?thesis by (simp add: filters_part_def)
qed

lemma set_sort:
  "(case sort_option of
      Some s \<Rightarrow> dict_update ([(''gridView'', PInt 1)] @ channel_part cid @ filters_part filters)
                 (sort_to_dict s)
    | None \<Rightarrow> [(''gridView'', PInt 1)] @ channel_part cid @ filters_part filters) =
   [(''gridView'', PInt 1)] @ channel_part cid @ filters_part filters @ sort_part sort_option"
proof (cases sort_option)
  case None
  then show ?thesis by (simp add: sort_part_def)
next
  case (Some s)
  have "set (map fst ([(''gridView'', PInt 1)] @ channel_part cid @ filters_part filters)) \<subseteq>
      {''gridView'', ''channelID''} \<union> set filter_names"
    using channel_part_keys [of cid] filters_part_keys [of filters] by auto
  from update_sort [OF this, of s] Some show ?thesis by (simp add: sort_part_def)
qed

lemma params_wire:
  "map (\<lambda>(k, v). (k, py_str v))
     ([(''gridView'', PInt 1)] @ channel_part cid @ filters_part filters @ sort_part sort_option) =
   wire_params cid filters sort_option"
proof -
  have one: "str_int 1 = ''1''" by code_simp
  have c: "map (\<lambda>(k, v). (k, py_str v)) (channel_part cid) =
      (case cid of Some c \<Rightarrow> if c \<noteq> [] then [(''channelID'', c)] else [] | None \<Rightarrow> [])"
    by (simp add: channel_part_def split: option.splits)
  have f: "map (\<lambda>(k, v). (k, py_str v)) (filters_part filters) =
      (case filters of Some f \<Rightarrow> wire_filters f | None \<Rightarrow> [])"
    by (cases filters) (simp_all add: filters_part_def to_dict_wire)
  have s: "map (\<lambda>(k, v). (k, py_str v)) (sort_part sort_option) =
      (case sort_option of
         Some s \<Rightarrow> [(''sortField'', SortField_value (field s)), (''sortOrder'', SortOrder_value (order s))]
       | None \<Rightarrow> [])"
    by (cases sort_option) (simp_all add: sort_part_def sort_to_dict_def)
  show ?thesis
    unfolding wire_params_def map_append c f s by (simp add: one)
qed

lemma build_search_url_eq:
  "build_search_url urljoin query cid filters sort_option page_id =
     urljoin BASE_URL (posixpath_join (quote query)
       (''1/'' @ str_int page_id @ ''?'' @ urlencode (wire_params cid filters sort_option)))"
  unfolding build_search_url_def Let_def set_channel set_filters set_sort params_wire ..

lemma digit_table: "list_all (\<lambda>k::nat. unreserved (char_of (48 + k))) [0..<10]"
  by code_simp

lemma digit_unreserved: "k < 10 \<Longrightarrow> unreserved (char_of (48 + (k::nat)))"
  using digit_table by (simp add: list_all_iff)

lemma digits_of_chars: "list_all unreserved (digits_of fuel n)"
proof (induction fuel arbitrary: n)
  case 0
  show ?case by simp
next
  case (Suc fuel)
  have "n mod 10 < 10" by simp
  then show ?case by (simp add: Suc.IH digit_unreserved)
qed

lemma digits_of_not_Nil: "digits_of (Suc fuel) n \<noteq> []"
  by simp

lemma str_int_not_Nil: "str_int n \<noteq> []"
  by (simp add: str_int_def str_nat_def del: digits_of.simps)
     (simp add: digits_of_not_Nil del: digits_of.simps)

lemma str_int_chars: "list_all unreserved (str_int n)"
proof -
  have "unreserved (CHR ''-'')" by code_simp
  then show ?thesis by (simp add: str_int_def str_nat_def digits_of_chars del: digits_of.simps)
qed

lemma isoformat_not_Nil: "isoformat d \<noteq> []"
  by (simp add: isoformat_def)

lemma LicenseType_value_not_Nil: "LicenseType_value l \<noteq> []"
  by (cases l) simp_all

lemma SortField_value_not_Nil: "SortField_value x \<noteq> []"
  by (cases x) simp_all

lemma SortOrder_value_not_Nil: "SortOrder_value x \<noteq> []"
  by (cases x) simp_all

lemma wire_range_values: "list_all (\<lambda>kv. snd kv \<noteq> []) (wire_range lo hi r)"
  by (cases r) (auto simp: wire_range_def str_int_not_Nil)

lemma wire_date_values: "list_all (\<lambda>kv. snd kv \<noteq> []) (wire_date k d)"
  by (cases d) (auto simp: wire_date_def isoformat_not_Nil)

lemma wire_filters_values: "list_all (\<lambda>kv. snd kv \<noteq> []) (wire_filters f)"
proof -
  have t: "list_all (\<lambda>kv. snd kv \<noteq> [])
      (case Filters.title f of Some t \<Rightarrow> if t \<noteq> [] then [(''title'', t)] else [] | None \<Rightarrow> [])"
    by (cases "Filters.title f") simp_all
  have d: "list_all (\<lambda>kv. snd kv \<noteq> [])
      (case date_range f of
         Some (a, b) \<Rightarrow> wire_date ''startDate'' a @ wire_date ''endDate'' b | None \<Rightarrow> [])"
    by (cases "date_range f") (auto simp: wire_date_values)
  have l: "list_all (\<lambda>kv. snd kv \<noteq> [])
      (case license f of Some l \<Rightarrow> [(''license'', LicenseType_value l)] | None \<Rightarrow> [])"
    by (cases "license f") (simp_all add: LicenseType_value_not_Nil)
  show ?thesis
    unfolding wire_filters_def list_all_append
    by (intro conjI t d l wire_range_values)
qed

lemma wire_params_values: "list_all (\<lambda>kv. snd kv \<noteq> []) (wire_params cid filters sort_option)"
proof -
  have c: "list_all (\<lambda>kv. snd kv \<noteq> [])
      (case cid of Some c \<Rightarrow> if c \<noteq> [] then [(''channelID'', c)] else [] | None \<Rightarrow> [])"
    by (cases cid) simp_all
  have f: "list_all (\<lambda>kv. snd kv \<noteq> []) (case filters of Some f \<Rightarrow> wire_filters f | None \<Rightarrow> [])"
    by (cases filters) (simp_all add: wire_filters_values)
  have s: "list_all (\<lambda>kv. snd kv \<noteq> [])
      (case sort_option of
         Some s \<Rightarrow> [(''sortField'', SortField_value (field s)), (''sortOrder'', SortOrder_value (order s))]
       | None \<Rightarrow> [])"
    by (cases sort_option) (simp_all add: SortField_value_not_Nil SortOrder_value_not_Nil)
  show ?thesis
    unfolding wire_params_def list_all_append
    by (intro conjI c f s) simp
qed

lemma quote_chars: "list_all path_char (quote s)"
proof -
  have "list_all path_char (quote_byte (\<lambda>c. unreserved c \<or> c = CHR ''/'') b)" for b
    by (simp add: quote_byte_def path_char_def hex_digit_facts byte_nibbles)
  then show ?thesis unfolding quote_def by (rule list_all_concat_map)
qed

lemma unreserved_path: "list_all unreserved s \<Longrightarrow> list_all path_char s"
  by (simp add: list_all_iff path_char_def)

lemma posixpath_join_relative:
  "\<not> startswith b ''/'' \<Longrightarrow>
     posixpath_join a b = (if a = [] \<or> last a = CHR ''/'' then a @ b else a @ ''/'' @ b)"
  by (simp add: posixpath_join_def)

lemma suburl_form:
  "\<exists>p. p \<noteq> [] \<and> list_all path_char p \<and>
     posixpath_join (quote query) (''1/'' @ str_int page_id @ ''?'' @ qs) = p @ ''?'' @ qs"
proof -
  define t where "t = ''1/'' @ str_int page_id"
  have "list_all path_char ''1/''" by code_simp
  then have t: "list_all path_char t" "t \<noteq> []"
    using unreserved_path [OF str_int_chars [of page_id]] by (simp_all add: t_def)
  have slash: "list_all path_char ''/''" by code_simp
  have b: "''1/'' @ str_int page_id @ ''?'' @ qs = t @ ''?'' @ qs" by (simp add: t_def)
  have "\<not> startswith (CHR ''1'' # r) ''/''" for r by (simp add: startswith_def)
  then have nostart: "\<not> startswith (t @ ''?'' @ qs) ''/''" by (simp add: t_def)
  show ?thesis
  proof (cases "quote query = [] \<or> last (quote query) = CHR ''/''")
    case True
    then have "posixpath_join (quote query) (t @ ''?'' @ qs) = (quote query @ t) @ ''?'' @ qs"
      by (simp only: posixpath_join_relative [OF nostart] if_True append_assoc)
    moreover have "list_all path_char (quote query @ t)" using quote_chars t(1) by simp
    moreover have "quote query @ t \<noteq> []" using t(2) by simp
    ultimately show ?thesis unfolding b by blast
  next
    case False
    then have "posixpath_join (quote query) (t @ ''?'' @ qs) = (quote query @ ''/'' @ t) @ ''?'' @ qs"
      by (simp only: posixpath_join_relative [OF nostart] if_False append_assoc)
    moreover have "list_all path_char (quote query @ ''/'' @ t)"
      using quote_chars t(1) slash by simp
    moreover have "quote query @ ''/'' @ t \<noteq> []" using t(2) by simp
    ultimately show ?thesis unfolding b by blast
  qed
qed

text \<open>
  Claim C8, as amended. Whatever the query, the channel identifier, the filters, the sort
  option and the page number, the query string of the built URL parses back to exactly
  the parameters supplied: \<open>gridView=1\<close>, the channel identifier, each filter field that
  is set to a non-empty value under its wire name (the numbers in decimal, the dates
  in ISO format, the license as its code), and \<open>sortField\<close> and \<open>sortOrder\<close> with the
  values of the sort option. \<open>urljoin\<close> is assumed to keep the query of the reference.
\<close>

theorem build_search_url_round_trip:
  assumes "keeps_query urljoin BASE_URL"
  shows "parse_qsl (urlsplit_query
           (build_search_url urljoin query cid filters sort_option page_id)) =
         Some (wire_params cid filters sort_option)"
proof -
  let ?qs = "urlencode (wire_params cid filters sort_option)"
  from suburl_form [of query page_id ?qs] obtain p where
    p: "p \<noteq> []" "list_all path_char p"
       "posixpath_join (quote query) (''1/'' @ str_int page_id @ ''?'' @ ?qs) = p @ ''?'' @ ?qs"
    by blast
  have "urlsplit_query (urljoin BASE_URL (p @ ''?'' @ ?qs)) = ?qs"
    using assms p(1,2) urlencode_chars [of "wire_params cid filters sort_option"]
    unfolding keeps_query_def by blast
  then have "urlsplit_query (build_search_url urljoin query cid filters sort_option page_id) = ?qs"
    by (simp only: build_search_url_eq p(3))
  then show ?thesis
    by (simp only: parse_qsl_urlencode [OF wire_params_values])
qed

lemma path_char_not_sep: "path_char c \<Longrightarrow> c \<noteq> CHR ''?'' \<and> c \<noteq> CHR ''#''"
  using unreserved_not_special by (auto simp: path_char_def)

lemma query_char_not_hash: "query_char c \<Longrightarrow> c \<noteq> CHR ''#''"
  using unreserved_not_special by (auto simp: query_char_def)

lemma urlsplit_query_append:
  assumes "CHR ''?'' \<notin> set x" "CHR ''#'' \<notin> set x" "CHR ''#'' \<notin> set q"
  shows "urlsplit_query (x @ ''?'' @ q) = q"
proof -
  have "CHR ''#'' \<notin> set (x @ ''?'' @ q)" using assms by simp
  then have t: "takeWhile (\<lambda>c. c \<noteq> CHR ''#'') (x @ ''?'' @ q) = x @ ''?'' @ q"
    by (intro takeWhile_eq_all_conv [THEN iffD2]) blast
  have d: "dropWhile (\<lambda>c. c \<noteq> CHR ''?'') (x @ ''?'' @ q) = CHR ''?'' # q"
    using assms(1) by (induction x) auto
  show ?thesis by (simp only: urlsplit_query_def t d list.case)
qed

lemma keeps_query_join_plain: "keeps_query join_plain BASE_URL"
  unfolding keeps_query_def
proof (intro allI impI)
  fix p q
  assume h: "p \<noteq> [] \<and> list_all path_char p \<and> list_all query_char q"
  have base: "CHR ''?'' \<notin> set BASE_URL" "CHR ''#'' \<notin> set BASE_URL"
    by (simp_all add: BASE_URL_def)
  from h path_char_not_sep have "CHR ''?'' \<notin> set p" "CHR ''#'' \<notin> set p"
    by (auto simp: list_all_iff)
  with base have x: "CHR ''?'' \<notin> set (BASE_URL @ p)" "CHR ''#'' \<notin> set (BASE_URL @ p)" by simp_all
  from h query_char_not_hash have q: "CHR ''#'' \<notin> set q" by (auto simp: list_all_iff)
  from urlsplit_query_append [OF x q]
  show "urlsplit_query (join_plain BASE_URL (p @ ''?'' @ q)) = q"
    by (simp add: join_plain_def)
qed

theorem build_search_url_round_trip_witness:
  "build_search_url join_plain ''cats dogs'' (Some ''UC3k3'') (Some filters_example)
     (Some sort_example) 2 =
     ''https://filmot.com/search/cats%20dogs/1/2?gridView=1&channelID=UC3k3&title=a+b%26c&minViews=0&maxViews=10&startDate=2020-01-05&license=2&sortField=viewcount&sortOrder=desc'' \<and>
   parse_qsl (urlsplit_query (build_search_url join_plain ''cats dogs'' (Some ''UC3k3'')
     (Some filters_example) (Some sort_example) 2)) =
     Some [(''gridView'', ''1''), (''channelID'', ''UC3k3''), (''title'', ''a b&c''),
           (''minViews'', ''0''), (''maxViews'', ''10''), (''startDate'', ''2020-01-05''),
           (''license'', ''2''), (''sortField'', ''viewcount''), (''sortOrder'', ''desc'')]"
proof -
  have url: "build_search_url join_plain ''cats dogs'' (Some ''UC3k3'') (Some filters_example)
     (Some sort_example) 2 =
     ''https://filmot.com/search/cats%20dogs/1/2?gridView=1&channelID=UC3k3&title=a+b%26c&minViews=0&maxViews=10&startDate=2020-01-05&license=2&sortField=viewcount&sortOrder=desc''"
    by code_simp
  have wire: "wire_params (Some ''UC3k3'') (Some filters_example) (Some sort_example) =
     [(''gridView'', ''1''), (''channelID'', ''UC3k3''), (''title'', ''a b&c''),
      (''minViews'', ''0''), (''maxViews'', ''10''), (''startDate'', ''2020-01-05''),
      (''license'', ''2''), (''sortField'', ''viewcount''), (''sortOrder'', ''desc'')]"
    by code_simp
  from build_search_url_round_trip [OF keeps_query_join_plain, of "''cats dogs''" "Some ''UC3k3''"
      "Some filters_example" "Some sort_example" 2]
  have "parse_qsl (urlsplit_query (build_search_url join_plain ''cats dogs'' (Some ''UC3k3'')
     (Some filters_example) (Some sort_example) 2)) =
     Some (wire_params (Some ''UC3k3'') (Some filters_example) (Some sort_example))" .
  with url wire show ?thesis by (simp only: simp_thms)
qed

text \<open>
  The claim as stated covers every filter field that is set. A title set to the empty
  string is dropped by the test \<open>if self.title\<close>: it does not appear in the URL.
\<close>

theorem build_search_url_drops_empty_title:
  "Filters.title filters_empty_title = Some [] \<and>
   build_search_url join_plain ''cats'' None (Some filters_empty_title) None 1 =
     ''https://filmot.com/search/cats/1/1?gridView=1'' \<and>
   parse_qsl (urlsplit_query
     (build_search_url join_plain ''cats'' None (Some filters_empty_title) None 1)) =
     Some [(''gridView'', ''1'')]"
  by code_simp

end
